theory Spec2Isabelle
  imports Complex_Main "HOL-Library.Word"
begin

unbundle bit_operations_syntax

chapter \<open>The model\<close>

section \<open>Sensitivity configuration: touch_config.h and sensitivity_manager.cpp\<close>

text \<open>
  The constants of touch_config.h. Sensitivity levels and thresholds are \<open>uint8_t\<close>
  in the source and 8-bit words here; loop indices are natural numbers.
\<close>

definition TOUCH_SENSITIVITY_MIN :: "8 word" where
  "TOUCH_SENSITIVITY_MIN = 1"

definition TOUCH_SENSITIVITY_MAX :: "8 word" where
  "TOUCH_SENSITIVITY_MAX = 5"

definition TOUCH_SENSITIVITY_DEFAULT :: "8 word" where
  "TOUCH_SENSITIVITY_DEFAULT = 3"

definition TOUCH_ELECTRODE_COUNT :: nat where
  "TOUCH_ELECTRODE_COUNT = 12"

definition TOUCH_SMALL_PAD_ELECTRODE :: nat where
  "TOUCH_SMALL_PAD_ELECTRODE = 11"

text \<open>
  The two threshold tables of sensitivity_manager.cpp, one row per level, each row
  \<open>(touch_threshold, release_threshold)\<close>, filled from the macros
  \<open>TOUCH_THRESHOLDS_LEVEL_1..5\<close> and \<open>TOUCH_SMALL_PAD_THRESHOLDS_LEVEL_1..5\<close>.
\<close>

definition sensitivity_levels :: "(8 word \<times> 8 word) list" where
  "sensitivity_levels = [(15, 10), (12, 8), (8, 4), (6, 3), (4, 2)]"

definition small_pad_levels :: "(8 word \<times> 8 word) list" where
  "small_pad_levels = [(12, 8), (10, 6), (6, 3), (4, 2), (3, 1)]"

text \<open>
  \<open>touch_sensitivity_config_t\<close>. The two arrays have \<open>TOUCH_ELECTRODE_COUNT\<close>
  elements in the source; they are lists here, and \<open>config_arrays_ok\<close> says that a
  value has the shape of the C struct.
\<close>

record touch_sensitivity_config_t =
  global_level :: "8 word"
  touch_threshold :: "8 word list"
  release_threshold :: "8 word list"
  custom_per_pad :: bool
  small_pad_compensation :: bool
  debounce_count :: "8 word"
  filter_config :: "8 word"
  auto_calibration :: bool
  calibration_interval_ms :: "32 word"

definition config_arrays_ok :: "touch_sensitivity_config_t \<Rightarrow> bool" where
  "config_arrays_ok c \<longleftrightarrow>
     length (touch_threshold c) = TOUCH_ELECTRODE_COUNT \<and>
     length (release_threshold c) = TOUCH_ELECTRODE_COUNT"

text \<open>
  One iteration of the loop of \<open>touch_config_set_sensitivity_level\<close>: electrode
  \<open>i\<close> receives the small-pad row when it is the small pad and compensation is on,
  the standard row otherwise. Nothing else is consulted.
\<close>

definition set_level_thresholds :: "8 word \<Rightarrow> nat \<Rightarrow> touch_sensitivity_config_t \<Rightarrow> touch_sensitivity_config_t" where
  "set_level_thresholds level_index i c =
     (if i = TOUCH_SMALL_PAD_ELECTRODE \<and> small_pad_compensation c
      then c\<lparr>touch_threshold := (touch_threshold c)[i := fst (small_pad_levels ! unat level_index)],
             release_threshold := (release_threshold c)[i := snd (small_pad_levels ! unat level_index)]\<rparr>
      else c\<lparr>touch_threshold := (touch_threshold c)[i := fst (sensitivity_levels ! unat level_index)],
             release_threshold := (release_threshold c)[i := snd (sensitivity_levels ! unat level_index)]\<rparr>)"

text \<open>
  \<open>touch_config_set_sensitivity_level\<close>. The configuration pointer is an option
  (\<open>None\<close> is the null pointer); the result is the returned flag and the
  configuration after the call.
\<close>

definition touch_config_set_sensitivity_level ::
  "touch_sensitivity_config_t option \<Rightarrow> 8 word \<Rightarrow> bool \<times> touch_sensitivity_config_t option" where
  "touch_config_set_sensitivity_level config level =
     (case config of
        None \<Rightarrow> (False, None)
      | Some c \<Rightarrow>
          if level < TOUCH_SENSITIVITY_MIN \<or> level > TOUCH_SENSITIVITY_MAX then (False, Some c)
          else
            let c1 = c\<lparr>global_level := level\<rparr>;
                level_index = level - 1
            in (True, Some (fold (set_level_thresholds level_index) [0..<TOUCH_ELECTRODE_COUNT] c1)))"

text \<open>\<open>touch_config_init_defaults\<close>: the scalar fields, then the level-3 thresholds.\<close>

definition touch_config_init_defaults ::
  "touch_sensitivity_config_t option \<Rightarrow> touch_sensitivity_config_t option" where
  "touch_config_init_defaults config =
     (case config of
        None \<Rightarrow> None
      | Some c \<Rightarrow>
          let c1 = c\<lparr>global_level := TOUCH_SENSITIVITY_DEFAULT,
                      custom_per_pad := False,
                      small_pad_compensation := True,
                      debounce_count := 2,
                      filter_config := 4,
                      auto_calibration := True,
                      calibration_interval_ms := 30000\<rparr>
          in snd (touch_config_set_sensitivity_level (Some c1) (global_level c1)))"

text \<open>\<open>touch_config_set_electrode_threshold\<close>, with its two guards in source order.\<close>

definition touch_config_set_electrode_threshold ::
  "touch_sensitivity_config_t option \<Rightarrow> 8 word \<Rightarrow> 8 word \<Rightarrow> 8 word
     \<Rightarrow> bool \<times> touch_sensitivity_config_t option" where
  "touch_config_set_electrode_threshold config electrode touch_thr release_thr =
     (case config of
        None \<Rightarrow> (False, None)
      | Some c \<Rightarrow>
          if unat electrode \<ge> TOUCH_ELECTRODE_COUNT then (False, Some c)
          else if touch_thr = 0 \<or> release_thr = 0 \<or> touch_thr \<le> release_thr then (False, Some c)
          else (True, Some (c\<lparr>touch_threshold := (touch_threshold c)[unat electrode := touch_thr],
                                release_threshold := (release_threshold c)[unat electrode := release_thr],
                                custom_per_pad := True\<rparr>)))"

text \<open>
  \<open>touch_config_validate\<close>: the level is in range and every electrode has
  \<open>touch > release > 0\<close>. The loop returns at the first electrode that fails.
\<close>

definition threshold_pair_bad :: "touch_sensitivity_config_t \<Rightarrow> nat \<Rightarrow> bool" where
  "threshold_pair_bad c i \<longleftrightarrow>
     touch_threshold c ! i = 0 \<or> release_threshold c ! i = 0 \<or>
     touch_threshold c ! i \<le> release_threshold c ! i"

definition touch_config_validate :: "touch_sensitivity_config_t option \<Rightarrow> bool" where
  "touch_config_validate config =
     (case config of
        None \<Rightarrow> False
      | Some c \<Rightarrow>
          if global_level c < TOUCH_SENSITIVITY_MIN \<or> global_level c > TOUCH_SENSITIVITY_MAX then False
          else \<not> list_ex (threshold_pair_bad c) [0..<TOUCH_ELECTRODE_COUNT])"

text \<open>
  The macro \<open>TOUCH_CONFIG_DEFAULT\<close> of touch_config.h: the factory configuration as
  the header writes it out.
\<close>

definition TOUCH_CONFIG_DEFAULT :: touch_sensitivity_config_t where
  "TOUCH_CONFIG_DEFAULT =
     \<lparr>global_level = TOUCH_SENSITIVITY_DEFAULT,
      touch_threshold = [8, 8, 8, 8, 8, 8, 8, 8, 8, 8, 8, 6],
      release_threshold = [4, 4, 4, 4, 4, 4, 4, 4, 4, 4, 4, 3],
      custom_per_pad = False,
      small_pad_compensation = True,
      debounce_count = 2,
      filter_config = 4,
      auto_calibration = True,
      calibration_interval_ms = 30000\<rparr>"

subsection \<open>Loading from the preferences store\<close>

text \<open>
  \<open>Preferences\<close> is the key/value store of the platform library. A namespace maps
  keys to typed values; \<open>begin\<close> either opens the namespace or fails, so the store that
  \<open>touch_config_load_from_nvs\<close> sees is an optional namespace. A getter returns the
  stored value when the key holds a value of its type and the caller's default otherwise.
\<close>

datatype nvs_value = NVS_UChar "8 word" | NVS_Bool bool | NVS_ULong "32 word"

type_synonym nvs_namespace = "string \<Rightarrow> nvs_value option"

definition getUChar :: "nvs_namespace \<Rightarrow> string \<Rightarrow> 8 word \<Rightarrow> 8 word" where
  "getUChar ns key dflt = (case ns key of Some (NVS_UChar v) \<Rightarrow> v | _ \<Rightarrow> dflt)"

definition getBool :: "nvs_namespace \<Rightarrow> string \<Rightarrow> bool \<Rightarrow> bool" where
  "getBool ns key dflt = (case ns key of Some (NVS_Bool v) \<Rightarrow> v | _ \<Rightarrow> dflt)"

definition getULong :: "nvs_namespace \<Rightarrow> string \<Rightarrow> 32 word \<Rightarrow> 32 word" where
  "getULong ns key dflt = (case ns key of Some (NVS_ULong v) \<Rightarrow> v | _ \<Rightarrow> dflt)"

text \<open>
  The keys \<open>snprintf(key, sizeof(key), "touch_th_%d", i)\<close> and
  \<open>"release_th_%d"\<close>: the prefix followed by the decimal digits of \<open>i\<close>. The loop
  index stays below 12, so two digits are enough and the 16-byte buffer never truncates.
\<close>

definition decimal :: "nat \<Rightarrow> string" where
  "decimal i =
     (if i < 10 then [''0123456789'' ! i]
      else [''0123456789'' ! (i div 10), ''0123456789'' ! (i mod 10)])"

definition load_thresholds :: "nvs_namespace \<Rightarrow> nat \<Rightarrow> touch_sensitivity_config_t \<Rightarrow> touch_sensitivity_config_t" where
  "load_thresholds ns i c =
     c\<lparr>touch_threshold := (touch_threshold c)[i := getUChar ns (''touch_th_'' @ decimal i) 8],
       release_threshold := (release_threshold c)[i := getUChar ns (''release_th_'' @ decimal i) 4]\<rparr>"

definition touch_config_load_from_nvs ::
  "nvs_namespace option \<Rightarrow> touch_sensitivity_config_t option
     \<Rightarrow> bool \<times> touch_sensitivity_config_t option" where
  "touch_config_load_from_nvs store config =
     (case config of
        None \<Rightarrow> (False, None)
      | Some c \<Rightarrow>
          (case store of
             None \<Rightarrow> (False, Some c)
           | Some ns \<Rightarrow>
               let c1 = c\<lparr>global_level := getUChar ns ''global_level'' TOUCH_SENSITIVITY_DEFAULT,
                           custom_per_pad := getBool ns ''custom_per_pad'' False,
                           small_pad_compensation := getBool ns ''small_pad_comp'' True,
                           debounce_count := getUChar ns ''debounce_count'' 2,
                           filter_config := getUChar ns ''filter_config'' 4,
                           auto_calibration := getBool ns ''auto_cal'' True,
                           calibration_interval_ms := getULong ns ''cal_interval'' 30000\<rparr>;
                   c2 = fold (load_thresholds ns) [0..<TOUCH_ELECTRODE_COUNT] c1
               in if \<not> touch_config_validate (Some c2)
                  then (False, touch_config_init_defaults (Some c2))
                  else (True, Some c2)))"

section \<open>Calibration: touch_calibration.cpp\<close>

text \<open>
  \<open>touch_calibration_data_t\<close>, the module's global \<open>g_calibration_data\<close>. Its four
  arrays have \<open>TOUCH_ELECTRODE_COUNT\<close> elements.
\<close>

record touch_calibration_data_t =
  baseline :: "16 word list"
  filtered_data :: "16 word list"
  touch_delta :: "16 word list"
  electrode_enabled :: "bool list"
  last_calibration_time :: "32 word"
  calibration_needed :: bool

definition calibration_arrays_ok :: "touch_calibration_data_t \<Rightarrow> bool" where
  "calibration_arrays_ok g \<longleftrightarrow>
     length (baseline g) = TOUCH_ELECTRODE_COUNT \<and>
     length (filtered_data g) = TOUCH_ELECTRODE_COUNT \<and>
     length (touch_delta g) = TOUCH_ELECTRODE_COUNT \<and>
     length (electrode_enabled g) = TOUCH_ELECTRODE_COUNT"

text \<open>
  An array access of the calibration interface. An index outside the array is undefined
  behaviour in the source; here it is the value \<open>None\<close>, so that a result \<open>Some v\<close> says
  that every access made on the way was inside its array.
\<close>

definition array_read :: "'a list \<Rightarrow> nat \<Rightarrow> 'a option" where
  "array_read xs i = (if i < length xs then Some (xs ! i) else None)"

definition array_write :: "'a list \<Rightarrow> nat \<Rightarrow> 'a \<Rightarrow> 'a list option" where
  "array_write xs i v = (if i < length xs then Some (xs[i := v]) else None)"

definition touch_calibration_get_electrode_delta :: "touch_calibration_data_t \<Rightarrow> 8 word \<Rightarrow> 16 word option" where
  "touch_calibration_get_electrode_delta g electrode =
     (if unat electrode \<ge> TOUCH_ELECTRODE_COUNT then Some 0
      else array_read (touch_delta g) (unat electrode))"

definition touch_calibration_get_electrode_baseline :: "touch_calibration_data_t \<Rightarrow> 8 word \<Rightarrow> 16 word option" where
  "touch_calibration_get_electrode_baseline g electrode =
     (if unat electrode \<ge> TOUCH_ELECTRODE_COUNT then Some 0
      else array_read (baseline g) (unat electrode))"

definition touch_calibration_get_electrode_filtered :: "touch_calibration_data_t \<Rightarrow> 8 word \<Rightarrow> 16 word option" where
  "touch_calibration_get_electrode_filtered g electrode =
     (if unat electrode \<ge> TOUCH_ELECTRODE_COUNT then Some 0
      else array_read (filtered_data g) (unat electrode))"

definition touch_calibration_is_electrode_enabled :: "touch_calibration_data_t \<Rightarrow> 8 word \<Rightarrow> bool option" where
  "touch_calibration_is_electrode_enabled g electrode =
     (if unat electrode \<ge> TOUCH_ELECTRODE_COUNT then Some False
      else array_read (electrode_enabled g) (unat electrode))"

text \<open>
  \<open>touch_calibration_is_electrode_touched\<close>. The condition
  \<open>electrode >= TOUCH_ELECTRODE_COUNT || !electrode_enabled[electrode]\<close> short-circuits,
  so the flag is read only for an index in range. The configuration is the one
  \<open>touch_sensitivity_manager_get_config\<close> hands out; the comparison of the 16-bit delta
  with the 8-bit threshold is made on their values.
\<close>

definition touch_calibration_is_electrode_touched ::
  "touch_calibration_data_t \<Rightarrow> touch_sensitivity_config_t option \<Rightarrow> 8 word \<Rightarrow> bool option" where
  "touch_calibration_is_electrode_touched g config electrode =
     (if unat electrode \<ge> TOUCH_ELECTRODE_COUNT then Some False
      else
        (case array_read (electrode_enabled g) (unat electrode) of
           None \<Rightarrow> None
         | Some enabled \<Rightarrow>
             if \<not> enabled then Some False
             else
               (case config of
                  None \<Rightarrow> Some False
                | Some c \<Rightarrow>
                    (case array_read (touch_delta g) (unat electrode) of
                       None \<Rightarrow> None
                     | Some delta \<Rightarrow>
                         (case array_read (touch_threshold c) (unat electrode) of
                            None \<Rightarrow> None
                          | Some thr \<Rightarrow> Some (unat delta \<ge> unat thr))))))"

definition touch_calibration_enable_electrode ::
  "touch_calibration_data_t \<Rightarrow> 8 word \<Rightarrow> bool \<Rightarrow> touch_calibration_data_t option" where
  "touch_calibration_enable_electrode g electrode enable =
     (if unat electrode \<ge> TOUCH_ELECTRODE_COUNT then Some g
      else
        (case array_write (electrode_enabled g) (unat electrode) enable of
           None \<Rightarrow> None
         | Some flags \<Rightarrow>
             let g1 = g\<lparr>electrode_enabled := flags\<rparr>
             in Some (if enable then g1\<lparr>calibration_needed := True\<rparr> else g1)))"

subsection \<open>Auto-tune\<close>

text \<open>
  \<open>constrain(amt, low, high)\<close> is the macro of the platform's core header:
  \<open>((amt) < (low) ? (low) : ((amt) > (high) ? (high) : (amt)))\<close>, evaluated on \<open>int\<close>
  after integer promotion.
\<close>

definition constrain :: "int \<Rightarrow> int \<Rightarrow> int \<Rightarrow> int" where
  "constrain amt low high = (if amt < low then low else if amt > high then high else amt)"

text \<open>
  \<open>uint16_t noise_level = abs((int16_t)baseline - (int16_t)filtered)\<close>: both readings
  are reinterpreted as signed 16-bit values, subtracted as \<open>int\<close>, and the absolute value
  is stored in 16 bits.
\<close>

definition noise_level :: "16 word \<Rightarrow> 16 word \<Rightarrow> 16 word" where
  "noise_level bl flt = word_of_int \<bar>sint bl - sint flt\<bar>"

text \<open>
  \<open>uint8_t recommended_touch_threshold = noise_level * 2 + 5\<close> and
  \<open>uint8_t recommended_release_threshold = noise_level + 2\<close>: the right-hand sides are
  computed as \<open>int\<close> and then stored in eight bits, before \<open>constrain\<close> sees them.
\<close>

definition recommended_touch_threshold :: "16 word \<Rightarrow> 8 word" where
  "recommended_touch_threshold noise =
     (let r = (word_of_int (uint noise * 2 + 5) :: 8 word)
      in word_of_int (constrain (uint r) 3 30))"

definition recommended_release_threshold :: "16 word \<Rightarrow> 8 word" where
  "recommended_release_threshold noise =
     (let r = (word_of_int (uint noise + 2) :: 8 word)
      in word_of_int (constrain (uint r) 1 15))"

text \<open>
  One iteration of the loop of \<open>touch_calibration_auto_tune_sensitivity\<close>, for an
  electrode index below \<open>TOUCH_ELECTRODE_COUNT\<close>: the configuration after it and whether
  it changed anything.
\<close>

definition auto_tune_electrode ::
  "touch_calibration_data_t \<Rightarrow> nat \<Rightarrow> touch_sensitivity_config_t \<times> bool \<Rightarrow> touch_sensitivity_config_t \<times> bool" where
  "auto_tune_electrode g electrode cc =
     (let (c, changes_made) = cc in
      if \<not> electrode_enabled g ! electrode then (c, changes_made)
      else
        let noise = noise_level (baseline g ! electrode) (filtered_data g ! electrode);
            rec_touch = recommended_touch_threshold noise;
            rec_release = recommended_release_threshold noise
        in if \<bar>uint (touch_threshold c ! electrode) - uint rec_touch\<bar> > 2
           then (c\<lparr>touch_threshold := (touch_threshold c)[electrode := rec_touch],
                   release_threshold := (release_threshold c)[electrode := rec_release]\<rparr>, True)
           else (c, changes_made))"

definition touch_calibration_auto_tune_sensitivity ::
  "touch_calibration_data_t \<Rightarrow> touch_sensitivity_config_t option
     \<Rightarrow> bool \<times> touch_sensitivity_config_t option \<times> bool" where
  "touch_calibration_auto_tune_sensitivity g config =
     (case config of
        None \<Rightarrow> (False, None, False)
      | Some c \<Rightarrow>
          let (c', changes_made) = fold (auto_tune_electrode g) [0..<TOUCH_ELECTRODE_COUNT] (c, False)
          in (True, Some c', changes_made))"

section \<open>Single precision\<close>

text \<open>
  The position estimate and the step accumulator of touch_wheel.cpp compute in \<open>float\<close>:
  IEEE 754 binary32, rounding to nearest, ties to even. A \<open>float\<close> value is taken as the
  rational number it denotes, and \<open>f32 x\<close> is the binary32 value that an operation
  delivers when its exact result is \<open>x\<close>.

  \<open>round_even\<close> rounds a rational to the nearest whole number, a tie to the even one.
\<close>

definition round_even :: "rat \<Rightarrow> int" where
  "round_even q =
     (let f = \<lfloor>q\<rfloor>; r = q - of_int f
      in if r < 1 / 2 then f else if r > 1 / 2 then f + 1 else if even f then f else f + 1)"

text \<open>
  The binade of a number other than zero is the exponent \<open>e\<close> with
  \<open>2 powi e \<le> \<bar>x\<bar> < 2 powi (e + 1)\<close>, found by halving a number from \<open>2\<close> on and by
  doubling a number below \<open>1\<close>.
\<close>

function exp_up :: "rat \<Rightarrow> int" where
  "exp_up x = (if x \<ge> 2 then exp_up (x / 2) + 1 else 0)"
  by pat_completeness auto
termination
proof (relation "measure (\<lambda>x. nat \<lfloor>x\<rfloor>)")
  show "wf (measure (\<lambda>x :: rat. nat \<lfloor>x\<rfloor>))"
    by simp
next
  fix x :: rat
  assume x2: "2 \<le> x"
  then have "x / 2 \<le> x - 1"
    by simp
  then have "\<lfloor>x / 2\<rfloor> \<le> \<lfloor>x - 1\<rfloor>"
    by (rule floor_mono)
  moreover have "\<lfloor>x - 1\<rfloor> = \<lfloor>x\<rfloor> - 1"
    by simp
  moreover from x2 have "2 \<le> \<lfloor>x\<rfloor>"
    by (simp add: le_floor_iff)
  ultimately show "(x / 2, x) \<in> measure (\<lambda>x. nat \<lfloor>x\<rfloor>)"
    by simp
qed

function exp_down :: "rat \<Rightarrow> int" where
  "exp_down x = (if 0 < x \<and> x < 1 then exp_down (x * 2) - 1 else 0)"
  by pat_completeness auto
termination
proof (relation "measure (\<lambda>x. nat \<lceil>1 / x\<rceil>)")
  show "wf (measure (\<lambda>x :: rat. nat \<lceil>1 / x\<rceil>))"
    by simp
next
  fix x :: rat
  assume a: "0 < x \<and> x < 1"
  define y where "y = 1 / x"
  from a have y1: "1 < y"
    by (simp add: y_def)
  then have c2: "2 \<le> \<lceil>y\<rceil>"
    by (simp add: less_ceiling_iff add1_zle_eq [symmetric])
  then have "(2 :: rat) \<le> of_int \<lceil>y\<rceil>"
    by (metis of_int_le_iff of_int_numeral)
  moreover have "y \<le> of_int \<lceil>y\<rceil>"
    by (rule le_of_int_ceiling)
  ultimately have "y / 2 \<le> of_int (\<lceil>y\<rceil> - 1)"
    unfolding of_int_diff of_int_1 by linarith
  then have "\<lceil>y / 2\<rceil> \<le> \<lceil>y\<rceil> - 1"
    by (simp only: ceiling_le_iff)
  then have "\<lceil>1 / (x * 2)\<rceil> < \<lceil>1 / x\<rceil>"
    unfolding y_def by simp
  moreover from c2 have "0 < \<lceil>y\<rceil>"
    by linarith
  then have "0 < \<lceil>1 / x\<rceil>"
    unfolding y_def .
  ultimately show "(x * 2, x) \<in> measure (\<lambda>x. nat \<lceil>1 / x\<rceil>)"
    by simp
qed

text \<open>
  Both equations call themselves on the right-hand side, so they are used only where a
  proof asks for them.
\<close>

declare exp_up.simps [simp del] exp_down.simps [simp del]

definition binade :: "rat \<Rightarrow> int" where
  "binade x = (if \<bar>x\<bar> \<ge> 1 then exp_up \<bar>x\<bar> else exp_down \<bar>x\<bar>)"

text \<open>
  A binary32 value has 24 significant bits: in the binade \<open>e\<close> the values are the whole
  multiples of \<open>2 powi (e - 23)\<close>. \<open>f32\<close> scales by that unit, rounds to a whole number
  and scales back; \<open>is_f32\<close> holds of the values that rounding leaves alone. The exponent
  is not bounded here, so overflow and the coarser grid below \<open>2 powi (- 126)\<close> are left
  out: the numbers of the wheel are at most a few hundred, and a sum or a difference of
  two binary32 values that falls below \<open>2 powi (- 126)\<close> is a binary32 value itself, on
  the machine as here.
\<close>

definition f32 :: "rat \<Rightarrow> rat" where
  "f32 x =
     (if x = 0 then 0
      else let u = 2 powi (binade x - 23) in of_int (round_even (x / u)) * u)"

definition is_f32 :: "rat \<Rightarrow> bool" where
  "is_f32 x \<longleftrightarrow> f32 x = x"

section \<open>The wheel: touch_wheel.cpp\<close>

text \<open>
  What one iteration of \<open>touchTask\<close> reads from the controller: the touched bitmask
  \<open>s_mpr.touched()\<close> and, for an electrode number, \<open>s_mpr.filteredData(e)\<close> and
  \<open>s_mpr.baselineData(e)\<close>, all \<open>uint16_t\<close>.
\<close>

record touch_frame =
  curTouched :: "16 word"
  filteredData :: "8 word \<Rightarrow> 16 word"
  baselineData :: "8 word \<Rightarrow> 16 word"

subsection \<open>The accumulators of the position estimate\<close>

text \<open>
  The estimator keeps \<open>sumX\<close>, \<open>sumY\<close>, \<open>totalMag\<close> and \<open>maxStrength\<close>. Every
  strength is a whole number of at most 16 bits converted to \<open>float\<close>, and at most twelve
  of them are added, so \<open>totalMag\<close> and \<open>maxStrength\<close> hold whole numbers below
  \<open>2 ^ 24\<close> and are integers here. The pair \<open>(sumX, sumY)\<close> is built with \<open>cosf\<close>,
  \<open>sinf\<close> and single-precision products; it is a value of an arbitrary type \<open>'v\<close>, and
  the two statements \<open>sumX += cosf(ang) * strength; sumY += sinf(ang) * strength\<close> for
  slot \<open>i\<close> of \<open>s_orderCount\<close> slots are the parameter \<open>vadd i s_orderCount strength\<close>.
\<close>

record 'v accumulators =
  sumXY :: 'v
  totalMag :: int
  maxStrength :: int

definition add_strength :: "(nat \<Rightarrow> nat \<Rightarrow> int \<Rightarrow> 'v \<Rightarrow> 'v) \<Rightarrow> nat \<Rightarrow> nat \<Rightarrow> int
    \<Rightarrow> 'v accumulators \<Rightarrow> 'v accumulators" where
  "add_strength vadd n i strength acc =
     acc\<lparr>sumXY := vadd i n strength (sumXY acc),
         totalMag := totalMag acc + strength,
         maxStrength := (if strength > maxStrength acc then strength else maxStrength acc)\<rparr>"

text \<open>
  The strength of the first loop: \<open>(float)((int)baseline - (int)filtered)\<close>, set to zero
  when below \<open>kStrengthMin = 0.5f\<close> (for a whole number: when twice it is below one).
\<close>

definition baseline_strength :: "touch_frame \<Rightarrow> 8 word \<Rightarrow> int" where
  "baseline_strength f e =
     (let strength = uint (baselineData f e) - uint (filteredData f e)
      in if 2 * strength < 1 then 0 else strength)"

text \<open>
  The strength of the fallback loop:
  \<open>fmaxf(0.0f, kFilteredMax - (float)filteredData(e))\<close> with \<open>kFilteredMax = 32.0f\<close>.
\<close>

definition fallback_strength :: "touch_frame \<Rightarrow> 8 word \<Rightarrow> int" where
  "fallback_strength f e = max 0 (32 - uint (filteredData f e))"

definition baseline_pass :: "(nat \<Rightarrow> nat \<Rightarrow> int \<Rightarrow> 'v \<Rightarrow> 'v) \<Rightarrow> 8 word list \<Rightarrow> nat \<Rightarrow> touch_frame
    \<Rightarrow> nat \<Rightarrow> 'v accumulators \<Rightarrow> 'v accumulators" where
  "baseline_pass vadd order n f i acc =
     (let e = order ! i;
          strength = baseline_strength f e
      in if strength > 0 then add_strength vadd n i strength acc else acc)"

definition fallback_pass :: "(nat \<Rightarrow> nat \<Rightarrow> int \<Rightarrow> 'v \<Rightarrow> 'v) \<Rightarrow> 8 word list \<Rightarrow> nat \<Rightarrow> touch_frame
    \<Rightarrow> nat \<Rightarrow> 'v accumulators \<Rightarrow> 'v accumulators" where
  "fallback_pass vadd order n f i acc =
     (let e = order ! i;
          strength = fallback_strength f e
      in if strength > 1 then add_strength vadd n i strength acc else acc)"

text \<open>
  Lines 51 to 82 of \<open>touchTask\<close>: both loops run over the slots
  \<open>0 .. s_orderCount - 1\<close> of \<open>s_order\<close>, the second only when the first left
  \<open>totalMag\<close> at zero. \<open>zero\<close> is the initial \<open>(sumX, sumY) = (0, 0)\<close>. No other state
  of the firmware is read.
\<close>

definition estimator_sums :: "(nat \<Rightarrow> nat \<Rightarrow> int \<Rightarrow> 'v \<Rightarrow> 'v) \<Rightarrow> 'v \<Rightarrow> 8 word list \<Rightarrow> nat \<Rightarrow> touch_frame
    \<Rightarrow> 'v accumulators" where
  "estimator_sums vadd zero order n f =
     (let acc0 = \<lparr>sumXY = zero, totalMag = 0, maxStrength = 0\<rparr>;
          acc1 = fold (baseline_pass vadd order n f) [0..<n] acc0
      in if totalMag acc1 \<le> 0 then fold (fallback_pass vadd order n f) [0..<n] acc1 else acc1)"

subsection \<open>The state of the task\<close>

text \<open>
  The statics of touch_wheel.cpp that the gate and the step accumulator use, and the
  local \<open>lastPos\<close> of \<open>touchTask\<close>, which lives across iterations. \<open>int\<close> is 32 bits
  wide on the target and increments wrap. \<open>s_fracMove\<close> and \<open>lastPos\<close> are
  \<open>float\<close> in the source: each is the rational its binary32 value denotes, and every
  operation on them rounds with \<open>f32\<close>.
\<close>

record wheel_state =
  s_accumDelta :: "32 word"
  s_orderCount :: "8 word"
  s_invert :: bool
  s_fracMove :: rat
  s_isActive :: bool
  s_activeFrames :: "32 word"
  s_quietFrames :: "32 word"
  lastPos :: rat

subsection \<open>The activity gate\<close>

text \<open>
  Lines 97 to 103: \<open>proposedActive\<close> from the touched bits and \<open>maxStrength\<close>, the two
  streak counters, and the two debounced transitions in source order. The counters are
  compared as signed values.
\<close>

definition proposedActive :: "16 word \<Rightarrow> int \<Rightarrow> bool" where
  "proposedActive touched_bits max_strength \<longleftrightarrow> touched_bits \<noteq> 0 \<or> max_strength \<ge> 10"

definition activity_gate :: "16 word \<Rightarrow> int \<Rightarrow> wheel_state \<Rightarrow> wheel_state" where
  "activity_gate touched_bits max_strength w =
     (let w1 = (if proposedActive touched_bits max_strength
                then w\<lparr>s_activeFrames := s_activeFrames w + 1, s_quietFrames := 0\<rparr>
                else w\<lparr>s_quietFrames := s_quietFrames w + 1, s_activeFrames := 0\<rparr>);
          w2 = (if \<not> s_isActive w1 \<and> sint (s_activeFrames w1) \<ge> 2 then w1\<lparr>s_isActive := True\<rparr> else w1);
          w3 = (if s_isActive w2 \<and> sint (s_quietFrames w2) \<ge> 3 then w2\<lparr>s_isActive := False\<rparr> else w2)
      in w3)"

subsection \<open>The position of the estimate\<close>

text \<open>
  \<open>(float)M_PI\<close>, the binary32 value nearest to \<open>\<pi>\<close>: \<open>0x40490FDB\<close>, that is
  \<open>13176795 / 2 ^ 22\<close>. Its double \<open>2.0f * (float)M_PI\<close> is a binary32 value too.
\<close>

definition PI_F :: rat where
  "PI_F = 13176795 / 4194304"

text \<open>
  \<open>cosf\<close>, \<open>sinf\<close> and \<open>atan2f\<close> come from the C library, which the repository does
  not contain. They are the three fields of a parameter: each maps binary32 values to a
  binary32 value.
\<close>

record libm =
  cosf :: "rat \<Rightarrow> rat"
  sinf :: "rat \<Rightarrow> rat"
  atan2f :: "rat \<Rightarrow> rat \<Rightarrow> rat"

text \<open>
  Lines 61 and 75: \<open>float ang = (2.0f * (float)M_PI * i) / (float)s_orderCount\<close>, a
  product and a quotient, each rounded.
\<close>

definition slot_angle :: "nat \<Rightarrow> nat \<Rightarrow> rat" where
  "slot_angle i n = f32 (f32 (2 * PI_F * of_nat i) / of_nat n)"

text \<open>
  Lines 62 and 63 (76 and 77 in the fallback loop):
  \<open>sumX += cosf(ang) * strength; sumY += sinf(ang) * strength\<close> on the pair
  \<open>(sumX, sumY)\<close>, the product rounded and then the sum. This is the \<open>vadd\<close> of
  \<open>estimator_sums\<close>, whose \<open>zero\<close> is \<open>(0, 0)\<close>. A compiler that fuses the product
  and the sum into one operation rounds once instead of twice; the two agree whenever
  the product is a binary32 value itself.
\<close>

definition vadd_f32 :: "libm \<Rightarrow> nat \<Rightarrow> nat \<Rightarrow> int \<Rightarrow> rat \<times> rat \<Rightarrow> rat \<times> rat" where
  "vadd_f32 lm i n strength v =
     (let ang = slot_angle i n
      in (f32 (fst v + f32 (cosf lm ang * of_int strength)),
          f32 (snd v + f32 (sinf lm ang * of_int strength))))"

text \<open>
  Lines 84 to 90: \<open>activePos\<close> stays \<open>-1.0f\<close> unless \<open>totalMag > 0\<close>; otherwise the
  angle of \<open>atan2f(sumY, sumX)\<close>, moved up by \<open>2.0f * (float)M_PI\<close> when negative, is
  multiplied by \<open>s_orderCount\<close> and divided by \<open>2.0f * (float)M_PI\<close>. The source's
  comment on the last step: ``Map angle to [0..s_orderCount) position space''.
\<close>

definition active_position :: "libm \<Rightarrow> nat \<Rightarrow> (rat \<times> rat) accumulators \<Rightarrow> rat" where
  "active_position lm n acc =
     (if totalMag acc > 0
      then
        let angle = atan2f lm (snd (sumXY acc)) (fst (sumXY acc));
            angle1 = (if angle < 0 then f32 (angle + 2 * PI_F) else angle)
        in f32 (f32 (angle1 * of_nat n) / (2 * PI_F))
      else - 1)"

subsection \<open>The step accumulator\<close>

text \<open>
  The two loops of lines 117 and 118, on the triple
  \<open>(s_fracMove, s_accumDelta, stepDelta)\<close>. \<open>s_fracMove -= 1.0f\<close> and
  \<open>s_fracMove += 1.0f\<close> round, and on a large \<open>s_fracMove\<close> they leave it as it is, so
  a loop need not end: \<open>None\<close> is the loop that runs forever.
\<close>

partial_function (option) emit_up :: "rat \<Rightarrow> 32 word \<Rightarrow> int \<Rightarrow> (rat \<times> 32 word \<times> int) option" where
  "emit_up fracMove accum stepDelta =
     (if fracMove \<ge> 1 / 2 then emit_up (f32 (fracMove - 1)) (accum + 1) (stepDelta + 1)
      else Some (fracMove, accum, stepDelta))"

partial_function (option) emit_down :: "rat \<Rightarrow> 32 word \<Rightarrow> int \<Rightarrow> (rat \<times> 32 word \<times> int) option" where
  "emit_down fracMove accum stepDelta =
     (if fracMove \<le> - (1 / 2) then emit_down (f32 (fracMove + 1)) (accum - 1) (stepDelta - 1)
      else Some (fracMove, accum, stepDelta))"

text \<open>
  Lines 110 to 114: the difference of two positions, rounded; the correction for the
  wrap of the ring of \<open>s_orderCount\<close> slots (two \<open>if\<close>s in sequence, each with a
  rounded sum), and the negation under \<open>s_invert\<close>. \<open>s_orderCount\<close> is at most 255,
  so its conversion to \<open>float\<close> and the halves \<open>s_orderCount/2.0f\<close> and
  \<open>-s_orderCount/2.0f\<close> are exact.
\<close>

definition wrapped_diff :: "wheel_state \<Rightarrow> rat \<Rightarrow> rat \<Rightarrow> rat" where
  "wrapped_diff w last_pos active_pos =
     (let n = of_nat (unat (s_orderCount w));
          diff = f32 (active_pos - last_pos);
          diff1 = (if diff > n / 2 then f32 (diff - n) else diff);
          diff2 = (if diff1 < - n / 2 then f32 (diff1 + n) else diff1)
      in if s_invert w then - diff2 else diff2)"

text \<open>
  Lines 107 to 123, for the position \<open>activePos\<close> of this iteration (\<open>-1\<close> when the
  estimator found no signal): the state after them and \<open>stepDelta\<close>, or \<open>None\<close> when
  one of the two loops does not end. \<open>s_fracMove += diff\<close> rounds.
\<close>

definition step_accumulator :: "rat \<Rightarrow> wheel_state \<Rightarrow> (wheel_state \<times> int) option" where
  "step_accumulator activePos w =
     (let moved =
            (if s_isActive w \<and> activePos \<ge> 0 \<and> lastPos w \<ge> 0
             then
               let diff = wrapped_diff w (lastPos w) activePos
               in case emit_up (f32 (s_fracMove w + diff)) (s_accumDelta w) 0 of
                    None \<Rightarrow> None
                  | Some (fracMove1, accum1, steps1) \<Rightarrow>
                      (case emit_down fracMove1 accum1 steps1 of
                         None \<Rightarrow> None
                       | Some (fracMove2, accum2, steps2) \<Rightarrow>
                           Some (w\<lparr>s_fracMove := fracMove2, s_accumDelta := accum2\<rparr>, steps2))
             else Some (w, 0))
      in case moved of
           None \<Rightarrow> None
         | Some (w1, stepDelta) \<Rightarrow>
             if s_isActive w1 \<and> activePos \<ge> 0
             then Some (w1\<lparr>lastPos := activePos\<rparr>, stepDelta)
             else Some (w1\<lparr>lastPos := - 1, s_fracMove := 0\<rparr>, stepDelta))"

text \<open>
  One iteration of the loop of \<open>touchTask\<close> from the gate on (lines 95 to 123), given
  what the estimator produced for the frame: the touched bitmask, \<open>maxStrength\<close> and
  \<open>activePos\<close>.
\<close>

definition touchTask_iteration :: "16 word \<Rightarrow> int \<Rightarrow> rat \<Rightarrow> wheel_state \<Rightarrow> (wheel_state \<times> int) option" where
  "touchTask_iteration touched_bits max_strength activePos w =
     step_accumulator activePos (activity_gate touched_bits max_strength w)"

text \<open>
  The whole body of the loop for a frame read from the controller: the estimator over
  the slots of \<open>s_order\<close>, the position, and the iteration above.
\<close>

definition touchTask_frame :: "libm \<Rightarrow> 8 word list \<Rightarrow> touch_frame \<Rightarrow> wheel_state \<Rightarrow> (wheel_state \<times> int) option" where
  "touchTask_frame lm order f w =
     (let n = unat (s_orderCount w);
          acc = estimator_sums (vadd_f32 lm) (0, 0) order n f
      in touchTask_iteration (curTouched f) (maxStrength acc) (active_position lm n acc) w)"

subsection \<open>The drain\<close>

text \<open>
  \<open>touchWheelGetAndClearDelta\<close> is two statements on the \<open>volatile int\<close> counter,
  \<open>int d = s_accumDelta;\<close> and \<open>s_accumDelta = 0;\<close>, with no lock and no critical
  section around them: \<open>drain_read\<close> and \<open>drain_clear\<close>. The function is the two in
  sequence when nothing runs between them.
\<close>

definition drain_read :: "wheel_state \<Rightarrow> 32 word" where
  "drain_read w = s_accumDelta w"

definition drain_clear :: "wheel_state \<Rightarrow> wheel_state" where
  "drain_clear w = w\<lparr>s_accumDelta := 0\<rparr>"

definition touchWheelGetAndClearDelta :: "wheel_state \<Rightarrow> 32 word \<times> wheel_state" where
  "touchWheelGetAndClearDelta w = (let d = drain_read w; w1 = drain_clear w in (d, w1))"

section \<open>Runs of the task\<close>

text \<open>
  The gate over a sequence of frames, each given by its touched bitmask and its
  \<open>maxStrength\<close>, and the values the statics have when the task starts.
\<close>

definition gate_run :: "(16 word \<times> int) list \<Rightarrow> wheel_state \<Rightarrow> wheel_state" where
  "gate_run frames w = fold (\<lambda>(touched_bits, max_strength). activity_gate touched_bits max_strength) frames w"

definition qualifies :: "16 word \<times> int \<Rightarrow> bool" where
  "qualifies fr = proposedActive (fst fr) (snd fr)"

definition gate_idle :: "wheel_state \<Rightarrow> bool" where
  "gate_idle w \<longleftrightarrow> \<not> s_isActive w \<and> s_activeFrames w = 0 \<and> s_quietFrames w = 0"

text \<open>
  What the proofs about the gate keep along a run: an active wheel has a quiet streak of
  at most two, an idle one an active streak of at most one.
\<close>

definition gate_streaks_ok :: "wheel_state \<Rightarrow> bool" where
  "gate_streaks_ok w \<longleftrightarrow>
     (if s_isActive w then s_quietFrames w = 0 \<or> s_quietFrames w = 1 \<or> s_quietFrames w = 2
      else s_activeFrames w = 0 \<or> s_activeFrames w = 1)"

text \<open>
  The step accumulator over a sequence of positions: the state after the last one and
  the sum of the \<open>stepDelta\<close>s emitted on the way, added to \<open>emitted\<close>.
\<close>

fun feed_positions :: "rat list \<Rightarrow> wheel_state \<Rightarrow> int \<Rightarrow> (wheel_state \<times> int) option" where
  "feed_positions [] w emitted = Some (w, emitted)"
| "feed_positions (p # ps) w emitted =
     (case step_accumulator p w of
        None \<Rightarrow> None
      | Some (w', stepDelta) \<Rightarrow> feed_positions ps w' (emitted + stepDelta))"

text \<open>
  The motion of a sequence of positions as the code measures it: the sum, taken exactly,
  of the differences \<open>wrapped_diff\<close> of consecutive positions, \<open>path_motion\<close> from a
  known previous position and \<open>session_motion\<close> for a session whose first position has
  no predecessor.
\<close>

fun path_motion :: "wheel_state \<Rightarrow> rat \<Rightarrow> rat list \<Rightarrow> rat" where
  "path_motion w q [] = 0"
| "path_motion w q (p # ps) = wrapped_diff w q p + path_motion w p ps"

definition session_motion :: "wheel_state \<Rightarrow> rat list \<Rightarrow> rat" where
  "session_motion w ps = (case ps of [] \<Rightarrow> 0 | p # ps' \<Rightarrow> path_motion w p ps')"

text \<open>
  The task and the consumer run as two tasks of the same priority on the same core
  (\<open>xTaskCreatePinnedToCore(touchTask, ..., 1, ..., 1)\<close> in touch_wheel.cpp,
  \<open>xTaskCreatePinnedToCore(menuTask, ..., 1, ..., 1)\<close> in main.cpp), so the scheduler
  may switch from one to the other at any tick. The events of a run: an iteration of
  the task, the consumer's read of the counter into its local \<open>d\<close>, and the consumer's
  clear of the counter, after which the call returns \<open>d\<close>. A run collects the
  \<open>stepDelta\<close> of every iteration and the value every call returns, in order; \<open>d\<close> is
  the consumer's local. An iteration of the task is one event: its own updates of the
  counter, \<open>s_accumDelta += 1\<close> and \<open>s_accumDelta -= 1\<close>, are not split into their read
  and their write.
\<close>

datatype wheel_event = Poll "16 word" int rat | DrainRead | DrainClear

fun run_events :: "wheel_event list \<Rightarrow> wheel_state \<Rightarrow> 32 word \<Rightarrow> (wheel_state \<times> int list \<times> 32 word list) option" where
  "run_events [] w d = Some (w, [], [])"
| "run_events (Poll touched_bits max_strength activePos # evs) w d =
     (case touchTask_iteration touched_bits max_strength activePos w of
        None \<Rightarrow> None
      | Some (w1, stepDelta) \<Rightarrow>
          (case run_events evs w1 d of
             None \<Rightarrow> None
           | Some (w2, steps, drained) \<Rightarrow> Some (w2, stepDelta # steps, drained)))"
| "run_events (DrainRead # evs) w d = run_events evs w (drain_read w)"
| "run_events (DrainClear # evs) w d =
     (case run_events evs (drain_clear w) d of
        None \<Rightarrow> None
      | Some (w2, steps, drained) \<Rightarrow> Some (w2, steps, d # drained))"

text \<open>
  The statics as touch_wheel.cpp initialises them, with \<open>lastPos = -1.0f\<close> as
  \<open>touchTask\<close> starts.
\<close>

definition wheel_start :: wheel_state where
  "wheel_start =
     \<lparr>s_accumDelta = 0, s_orderCount = 12, s_invert = False, s_fracMove = 0,
      s_isActive = False, s_activeFrames = 0, s_quietFrames = 0, lastPos = - 1\<rparr>"

section \<open>The estimator the specification describes\<close>

text \<open>
  The specification's Position Estimator runs the same two loops over the enabled
  electrodes only: an electrode whose \<open>electrodeEnabled\<close> flag is false is skipped in
  both. \<open>spec_estimator_sums\<close> is that estimator, written from the specification's
  words, to be compared with \<open>estimator_sums\<close>. \<open>enabled e\<close> is the flag of electrode
  number \<open>e\<close>; for calibration data \<open>g\<close> it is \<open>electrode_enabled g ! unat e\<close>.
\<close>

definition spec_baseline_pass :: "(8 word \<Rightarrow> bool) \<Rightarrow> (nat \<Rightarrow> nat \<Rightarrow> int \<Rightarrow> 'v \<Rightarrow> 'v) \<Rightarrow> 8 word list \<Rightarrow> nat
    \<Rightarrow> touch_frame \<Rightarrow> nat \<Rightarrow> 'v accumulators \<Rightarrow> 'v accumulators" where
  "spec_baseline_pass enabled vadd order n f i acc =
     (if enabled (order ! i) then baseline_pass vadd order n f i acc else acc)"

definition spec_fallback_pass :: "(8 word \<Rightarrow> bool) \<Rightarrow> (nat \<Rightarrow> nat \<Rightarrow> int \<Rightarrow> 'v \<Rightarrow> 'v) \<Rightarrow> 8 word list \<Rightarrow> nat
    \<Rightarrow> touch_frame \<Rightarrow> nat \<Rightarrow> 'v accumulators \<Rightarrow> 'v accumulators" where
  "spec_fallback_pass enabled vadd order n f i acc =
     (if enabled (order ! i) then fallback_pass vadd order n f i acc else acc)"

definition spec_estimator_sums :: "(8 word \<Rightarrow> bool) \<Rightarrow> (nat \<Rightarrow> nat \<Rightarrow> int \<Rightarrow> 'v \<Rightarrow> 'v) \<Rightarrow> 'v \<Rightarrow> 8 word list \<Rightarrow> nat
    \<Rightarrow> touch_frame \<Rightarrow> 'v accumulators" where
  "spec_estimator_sums enabled vadd zero order n f =
     (let acc0 = \<lparr>sumXY = zero, totalMag = 0, maxStrength = 0\<rparr>;
          acc1 = fold (spec_baseline_pass enabled vadd order n f) [0..<n] acc0
      in if totalMag acc1 \<le> 0 then fold (spec_fallback_pass enabled vadd order n f) [0..<n] acc1 else acc1)"

section \<open>The step accumulator the specification describes\<close>

text \<open>
  The difference the specification describes, with no rounding: the plain difference of
  two positions, brought into the half ring on either side and negated under
  \<open>s_invert\<close>; and the motion of a session as the sum of these.
\<close>

definition spec_wrapped_diff :: "wheel_state \<Rightarrow> rat \<Rightarrow> rat \<Rightarrow> rat" where
  "spec_wrapped_diff w last_pos active_pos =
     (let n = of_nat (unat (s_orderCount w));
          diff = active_pos - last_pos;
          diff1 = (if diff > n / 2 then diff - n else diff);
          diff2 = (if diff1 < - n / 2 then diff1 + n else diff1)
      in if s_invert w then - diff2 else diff2)"

fun spec_path_motion :: "wheel_state \<Rightarrow> rat \<Rightarrow> rat list \<Rightarrow> rat" where
  "spec_path_motion w q [] = 0"
| "spec_path_motion w q (p # ps) = spec_wrapped_diff w q p + spec_path_motion w p ps"

definition spec_session_motion :: "wheel_state \<Rightarrow> rat list \<Rightarrow> rat" where
  "spec_session_motion w ps = (case ps of [] \<Rightarrow> 0 | p # ps' \<Rightarrow> spec_path_motion w p ps')"

chapter \<open>The claims\<close>

section \<open>Twelve electrodes, written out\<close>

text \<open>
  The loops over the electrodes run from 0 to 11; on concrete data they are evaluated on
  the twelve indices written out.
\<close>

lemma upt12: "[0..<12] = [0, 1, 2, 3, 4, 5, 6, 7, 8, 9, 10, 11]"
  by (simp add: upt_rec)

lemma replicate12: "replicate 12 x = [x, x, x, x, x, x, x, x, x, x, x, x]"
  by (simp add: eval_nat_numeral)

section \<open>Rejected and accepted per-electrode overrides\<close>

text \<open>
  C6. A call of \<open>touch_config_set_electrode_threshold\<close> whose thresholds satisfy
  \<open>touch \<le> release\<close>, \<open>touch = 0\<close> or \<open>release = 0\<close> returns false and leaves the whole
  configuration as it was, for every electrode index and every configuration (the null
  pointer included); and a call that returns true has written the two thresholds of that
  electrode and set \<open>custom_per_pad\<close>, every other field and every other electrode being
  as before.
\<close>

theorem set_electrode_threshold_rejects_or_marks_custom:
  "(t \<le> r \<or> t = 0 \<or> r = 0 \<longrightarrow>
      touch_config_set_electrode_threshold config e t r = (False, config)) \<and>
   (touch_config_set_electrode_threshold (Some c) e t r = (True, Some c') \<longrightarrow>
      custom_per_pad c' \<and>
      c' = c\<lparr>touch_threshold := (touch_threshold c)[unat e := t],
             release_threshold := (release_threshold c)[unat e := r],
             custom_per_pad := True\<rparr>)"
  by (auto simp: touch_config_set_electrode_threshold_def split: option.splits if_splits)

text \<open>
  The theorem at the factory configuration: electrode 2 with thresholds \<open>(4, 9)\<close> and
  \<open>(0, 7)\<close> is rejected and nothing changes; with \<open>(20, 5)\<close> it is accepted and the
  custom flag is set.
\<close>

theorem set_electrode_threshold_rejects_or_marks_custom_witness:
  "touch_config_set_electrode_threshold (Some TOUCH_CONFIG_DEFAULT) 2 4 9 = (False, Some TOUCH_CONFIG_DEFAULT) \<and>
   touch_config_set_electrode_threshold (Some TOUCH_CONFIG_DEFAULT) 2 0 7 = (False, Some TOUCH_CONFIG_DEFAULT) \<and>
   touch_config_set_electrode_threshold (Some TOUCH_CONFIG_DEFAULT) 2 20 5 =
     (True, Some (TOUCH_CONFIG_DEFAULT\<lparr>touch_threshold := [8, 8, 20, 8, 8, 8, 8, 8, 8, 8, 8, 6],
                                         release_threshold := [4, 4, 5, 4, 4, 4, 4, 4, 4, 4, 4, 3],
                                         custom_per_pad := True\<rparr>)) \<and>
   custom_per_pad (TOUCH_CONFIG_DEFAULT\<lparr>touch_threshold := [8, 8, 20, 8, 8, 8, 8, 8, 8, 8, 8, 6],
                                        release_threshold := [4, 4, 5, 4, 4, 4, 4, 4, 4, 4, 4, 3],
                                        custom_per_pad := True\<rparr>)"
proof -
  note main = set_electrode_threshold_rejects_or_marks_custom
  have a: "touch_config_set_electrode_threshold (Some TOUCH_CONFIG_DEFAULT) 2 4 9 = (False, Some TOUCH_CONFIG_DEFAULT)"
    by (rule main [THEN conjunct1, THEN mp]) simp
  have b: "touch_config_set_electrode_threshold (Some TOUCH_CONFIG_DEFAULT) 2 0 7 = (False, Some TOUCH_CONFIG_DEFAULT)"
    by (rule main [THEN conjunct1, THEN mp]) simp
  have c: "touch_config_set_electrode_threshold (Some TOUCH_CONFIG_DEFAULT) 2 20 5 =
     (True, Some (TOUCH_CONFIG_DEFAULT\<lparr>touch_threshold := [8, 8, 20, 8, 8, 8, 8, 8, 8, 8, 8, 6],
                                         release_threshold := [4, 4, 5, 4, 4, 4, 4, 4, 4, 4, 4, 3],
                                         custom_per_pad := True\<rparr>))"
    by (simp add: touch_config_set_electrode_threshold_def TOUCH_ELECTRODE_COUNT_def TOUCH_CONFIG_DEFAULT_def)
  from main [THEN conjunct2, THEN mp, OF c]
  have d: "custom_per_pad (TOUCH_CONFIG_DEFAULT\<lparr>touch_threshold := [8, 8, 20, 8, 8, 8, 8, 8, 8, 8, 8, 6],
                                        release_threshold := [4, 4, 5, 4, 4, 4, 4, 4, 4, 4, 4, 3],
                                        custom_per_pad := True\<rparr>)"
    by (rule conjunct1)
  from a b c d show ?thesis by blast
qed

section \<open>Setting the global level\<close>

text \<open>The loop of \<open>touch_config_set_sensitivity_level\<close>, field by field.\<close>

lemma set_level_thresholds_fields:
  "global_level (set_level_thresholds li i c) = global_level c"
  "custom_per_pad (set_level_thresholds li i c) = custom_per_pad c"
  "small_pad_compensation (set_level_thresholds li i c) = small_pad_compensation c"
  "debounce_count (set_level_thresholds li i c) = debounce_count c"
  "filter_config (set_level_thresholds li i c) = filter_config c"
  "auto_calibration (set_level_thresholds li i c) = auto_calibration c"
  "calibration_interval_ms (set_level_thresholds li i c) = calibration_interval_ms c"
  "length (touch_threshold (set_level_thresholds li i c)) = length (touch_threshold c)"
  "length (release_threshold (set_level_thresholds li i c)) = length (release_threshold c)"
  by (simp_all add: set_level_thresholds_def)

lemma set_level_thresholds_arrays:
  "touch_threshold (set_level_thresholds li i c) =
     (touch_threshold c)[i := fst (if i = TOUCH_SMALL_PAD_ELECTRODE \<and> small_pad_compensation c
                                   then small_pad_levels ! unat li else sensitivity_levels ! unat li)]"
  "release_threshold (set_level_thresholds li i c) =
     (release_threshold c)[i := snd (if i = TOUCH_SMALL_PAD_ELECTRODE \<and> small_pad_compensation c
                                     then small_pad_levels ! unat li else sensitivity_levels ! unat li)]"
  by (simp_all add: set_level_thresholds_def)

lemma fold_set_level_fields:
  "global_level (fold (set_level_thresholds li) [0..<k] c) = global_level c"
  "custom_per_pad (fold (set_level_thresholds li) [0..<k] c) = custom_per_pad c"
  "small_pad_compensation (fold (set_level_thresholds li) [0..<k] c) = small_pad_compensation c"
  "debounce_count (fold (set_level_thresholds li) [0..<k] c) = debounce_count c"
  "filter_config (fold (set_level_thresholds li) [0..<k] c) = filter_config c"
  "auto_calibration (fold (set_level_thresholds li) [0..<k] c) = auto_calibration c"
  "calibration_interval_ms (fold (set_level_thresholds li) [0..<k] c) = calibration_interval_ms c"
  "length (touch_threshold (fold (set_level_thresholds li) [0..<k] c)) = length (touch_threshold c)"
  "length (release_threshold (fold (set_level_thresholds li) [0..<k] c)) = length (release_threshold c)"
  by (induction k; simp add: set_level_thresholds_fields)+

lemma fold_set_level_nth:
  assumes "i < length (touch_threshold c)" "i < length (release_threshold c)"
  shows "touch_threshold (fold (set_level_thresholds li) [0..<k] c) ! i =
           (if i < k then fst (if i = TOUCH_SMALL_PAD_ELECTRODE \<and> small_pad_compensation c
                               then small_pad_levels ! unat li else sensitivity_levels ! unat li)
            else touch_threshold c ! i)"
    and "release_threshold (fold (set_level_thresholds li) [0..<k] c) ! i =
           (if i < k then snd (if i = TOUCH_SMALL_PAD_ELECTRODE \<and> small_pad_compensation c
                               then small_pad_levels ! unat li else sensitivity_levels ! unat li)
            else release_threshold c ! i)"
  using assms
  by (induction k; simp add: set_level_thresholds_arrays fold_set_level_fields nth_list_update less_Suc_eq)+

text \<open>
  C4, as the code has it. For a configuration of the struct's shape, every level \<open>L\<close>
  from 1 to 5 and every electrode \<open>i\<close> below 12, \<open>touch_config_set_sensitivity_level\<close>
  returns true and sets the two thresholds of electrode \<open>i\<close> to row \<open>L\<close> of the
  small-pad table when \<open>i = 11\<close> and \<open>small_pad_compensation\<close> is on, and to row \<open>L\<close>
  of the standard table otherwise. It does so whatever \<open>custom_per_pad\<close> is: the flag is
  not read and keeps its value, and \<open>global_level\<close> becomes \<open>L\<close>.
\<close>

theorem set_sensitivity_level_rewrites_every_electrode:
  assumes "config_arrays_ok c" and "1 \<le> level" and "level \<le> 5" and "i < 12"
  shows "\<exists>c'. touch_config_set_sensitivity_level (Some c) level = (True, Some c') \<and>
           (touch_threshold c' ! i, release_threshold c' ! i) =
             (if i = 11 \<and> small_pad_compensation c
              then small_pad_levels ! (unat level - 1) else sensitivity_levels ! (unat level - 1)) \<and>
           custom_per_pad c' = custom_per_pad c \<and>
           global_level c' = level"
proof -
  from assms(2) have u: "unat (level - 1) = unat level - 1"
    by (simp add: unat_sub)
  from assms(2) have nz: "level \<noteq> 0"
    by auto
  from nz assms(2,3) have "\<not> (level < TOUCH_SENSITIVITY_MIN \<or> level > TOUCH_SENSITIVITY_MAX)"
    by (simp add: TOUCH_SENSITIVITY_MIN_def TOUCH_SENSITIVITY_MAX_def not_less)
  then have call: "touch_config_set_sensitivity_level (Some c) level =
      (True, Some (fold (set_level_thresholds (level - 1)) [0..<TOUCH_ELECTRODE_COUNT] (c\<lparr>global_level := level\<rparr>)))"
    by (simp add: touch_config_set_sensitivity_level_def)
  from assms(1,4) have len: "i < length (touch_threshold (c\<lparr>global_level := level\<rparr>))"
      "i < length (release_threshold (c\<lparr>global_level := level\<rparr>))"
    by (simp_all add: config_arrays_ok_def TOUCH_ELECTRODE_COUNT_def)
  show ?thesis
    unfolding call using assms(4)
    by (simp add: fold_set_level_nth [OF len] fold_set_level_fields u
        TOUCH_ELECTRODE_COUNT_def TOUCH_SMALL_PAD_ELECTRODE_def prod_eq_iff)
qed

text \<open>
  The theorem at a configuration with a custom override on electrode 0 and level 4:
  the electrode receives the level-4 row \<open>(6, 3)\<close> and the custom flag stays set.
\<close>

theorem set_sensitivity_level_rewrites_every_electrode_witness:
  "config_arrays_ok (TOUCH_CONFIG_DEFAULT\<lparr>touch_threshold := [20, 8, 8, 8, 8, 8, 8, 8, 8, 8, 8, 6],
                                          release_threshold := [5, 4, 4, 4, 4, 4, 4, 4, 4, 4, 4, 3],
                                          custom_per_pad := True\<rparr>) \<and>
   (\<exists>c'. touch_config_set_sensitivity_level
            (Some (TOUCH_CONFIG_DEFAULT\<lparr>touch_threshold := [20, 8, 8, 8, 8, 8, 8, 8, 8, 8, 8, 6],
                                         release_threshold := [5, 4, 4, 4, 4, 4, 4, 4, 4, 4, 4, 3],
                                         custom_per_pad := True\<rparr>)) 4 = (True, Some c') \<and>
         (touch_threshold c' ! 0, release_threshold c' ! 0) = (6, 3) \<and>
         custom_per_pad c' \<and> global_level c' = 4)"
proof -
  let ?c = "TOUCH_CONFIG_DEFAULT\<lparr>touch_threshold := [20, 8, 8, 8, 8, 8, 8, 8, 8, 8, 8, 6],
                                  release_threshold := [5, 4, 4, 4, 4, 4, 4, 4, 4, 4, 4, 3],
                                  custom_per_pad := True\<rparr>"
  have ok: "config_arrays_ok ?c"
    by (simp add: config_arrays_ok_def TOUCH_CONFIG_DEFAULT_def TOUCH_ELECTRODE_COUNT_def)
  have "\<exists>c'. touch_config_set_sensitivity_level (Some ?c) 4 = (True, Some c') \<and>
           (touch_threshold c' ! 0, release_threshold c' ! 0) =
             (if (0::nat) = 11 \<and> small_pad_compensation ?c
              then small_pad_levels ! (unat (4 :: 8 word) - 1) else sensitivity_levels ! (unat (4 :: 8 word) - 1)) \<and>
           custom_per_pad c' = custom_per_pad ?c \<and>
           global_level c' = 4"
    by (rule set_sensitivity_level_rewrites_every_electrode [OF ok]) simp_all
  then have "\<exists>c'. touch_config_set_sensitivity_level (Some ?c) 4 = (True, Some c') \<and>
         (touch_threshold c' ! 0, release_threshold c' ! 0) = (6, 3) \<and>
         custom_per_pad c' \<and> global_level c' = 4"
    by (simp add: sensitivity_levels_def)
  with ok show ?thesis by blast
qed

text \<open>
  C4 as stated fails: it exempts an electrode from the rewrite when \<open>custom_per_pad\<close>
  is true. Overriding electrode 0 of the factory configuration with \<open>(20, 5)\<close> sets
  \<open>custom_per_pad\<close>; setting level 4 afterwards replaces \<open>(20, 5)\<close> by the table row
  \<open>(6, 3)\<close>, like every other electrode's thresholds.
\<close>

theorem set_sensitivity_level_overwrites_custom_counterexample:
  "touch_config_set_electrode_threshold (Some TOUCH_CONFIG_DEFAULT) 0 20 5 =
     (True, Some (TOUCH_CONFIG_DEFAULT\<lparr>touch_threshold := [20, 8, 8, 8, 8, 8, 8, 8, 8, 8, 8, 6],
                                         release_threshold := [5, 4, 4, 4, 4, 4, 4, 4, 4, 4, 4, 3],
                                         custom_per_pad := True\<rparr>)) \<and>
   touch_config_set_sensitivity_level
      (Some (TOUCH_CONFIG_DEFAULT\<lparr>touch_threshold := [20, 8, 8, 8, 8, 8, 8, 8, 8, 8, 8, 6],
                                   release_threshold := [5, 4, 4, 4, 4, 4, 4, 4, 4, 4, 4, 3],
                                   custom_per_pad := True\<rparr>)) 4 =
     (True, Some (TOUCH_CONFIG_DEFAULT\<lparr>global_level := 4,
                                         touch_threshold := [6, 6, 6, 6, 6, 6, 6, 6, 6, 6, 6, 4],
                                         release_threshold := [3, 3, 3, 3, 3, 3, 3, 3, 3, 3, 3, 2],
                                         custom_per_pad := True\<rparr>))"
proof
  show "touch_config_set_electrode_threshold (Some TOUCH_CONFIG_DEFAULT) 0 20 5 =
     (True, Some (TOUCH_CONFIG_DEFAULT\<lparr>touch_threshold := [20, 8, 8, 8, 8, 8, 8, 8, 8, 8, 8, 6],
                                         release_threshold := [5, 4, 4, 4, 4, 4, 4, 4, 4, 4, 4, 3],
                                         custom_per_pad := True\<rparr>))"
    by (simp add: touch_config_set_electrode_threshold_def TOUCH_ELECTRODE_COUNT_def TOUCH_CONFIG_DEFAULT_def)
  show "touch_config_set_sensitivity_level
      (Some (TOUCH_CONFIG_DEFAULT\<lparr>touch_threshold := [20, 8, 8, 8, 8, 8, 8, 8, 8, 8, 8, 6],
                                   release_threshold := [5, 4, 4, 4, 4, 4, 4, 4, 4, 4, 4, 3],
                                   custom_per_pad := True\<rparr>)) 4 =
     (True, Some (TOUCH_CONFIG_DEFAULT\<lparr>global_level := 4,
                                         touch_threshold := [6, 6, 6, 6, 6, 6, 6, 6, 6, 6, 6, 4],
                                         release_threshold := [3, 3, 3, 3, 3, 3, 3, 3, 3, 3, 3, 2],
                                         custom_per_pad := True\<rparr>))"
    by (simp add: touch_config_set_sensitivity_level_def TOUCH_SENSITIVITY_MIN_def TOUCH_SENSITIVITY_MAX_def
        TOUCH_ELECTRODE_COUNT_def upt12 set_level_thresholds_def TOUCH_SMALL_PAD_ELECTRODE_def
        TOUCH_CONFIG_DEFAULT_def sensitivity_levels_def small_pad_levels_def)
qed

section \<open>The calibration interface on any electrode index\<close>

text \<open>
  C10. For an electrode index of 12 or more, the four getters of the calibration module
  return 0 or false, the touched test returns false and enabling or disabling returns the
  calibration data unchanged, whatever the data and the configuration are (no array is
  read: the results do not depend on them). And on calibration data and a configuration
  of the structs' shape, no call of the interface, at any index from 0 to 255, makes an
  access outside an array: every result is \<open>Some\<close>.
\<close>

theorem calibration_interface_total_out_of_range:
  "(12 \<le> unat e \<longrightarrow>
      touch_calibration_get_electrode_delta g e = Some 0 \<and>
      touch_calibration_get_electrode_baseline g e = Some 0 \<and>
      touch_calibration_get_electrode_filtered g e = Some 0 \<and>
      touch_calibration_is_electrode_enabled g e = Some False \<and>
      touch_calibration_is_electrode_touched g config e = Some False \<and>
      touch_calibration_enable_electrode g e enable = Some g) \<and>
   (calibration_arrays_ok g \<and> (case config of None \<Rightarrow> True | Some c \<Rightarrow> config_arrays_ok c) \<longrightarrow>
      touch_calibration_get_electrode_delta g e \<noteq> None \<and>
      touch_calibration_get_electrode_baseline g e \<noteq> None \<and>
      touch_calibration_get_electrode_filtered g e \<noteq> None \<and>
      touch_calibration_is_electrode_enabled g e \<noteq> None \<and>
      touch_calibration_is_electrode_touched g config e \<noteq> None \<and>
      touch_calibration_enable_electrode g e enable \<noteq> None)"
proof (intro conjI impI)
  assume "12 \<le> unat e"
  then have out: "unat e \<ge> TOUCH_ELECTRODE_COUNT"
    by (simp add: TOUCH_ELECTRODE_COUNT_def)
  from out show "touch_calibration_get_electrode_delta g e = Some 0"
    by (simp add: touch_calibration_get_electrode_delta_def)
  from out show "touch_calibration_get_electrode_baseline g e = Some 0"
    by (simp add: touch_calibration_get_electrode_baseline_def)
  from out show "touch_calibration_get_electrode_filtered g e = Some 0"
    by (simp add: touch_calibration_get_electrode_filtered_def)
  from out show "touch_calibration_is_electrode_enabled g e = Some False"
    by (simp add: touch_calibration_is_electrode_enabled_def)
  from out show "touch_calibration_is_electrode_touched g config e = Some False"
    by (simp add: touch_calibration_is_electrode_touched_def)
  from out show "touch_calibration_enable_electrode g e enable = Some g"
    by (simp add: touch_calibration_enable_electrode_def)
next
  assume ok: "calibration_arrays_ok g \<and> (case config of None \<Rightarrow> True | Some c \<Rightarrow> config_arrays_ok c)"
  then have len: "length (baseline g) = TOUCH_ELECTRODE_COUNT" "length (filtered_data g) = TOUCH_ELECTRODE_COUNT"
      "length (touch_delta g) = TOUCH_ELECTRODE_COUNT" "length (electrode_enabled g) = TOUCH_ELECTRODE_COUNT"
    by (simp_all add: calibration_arrays_ok_def)
  from len show "touch_calibration_get_electrode_delta g e \<noteq> None"
    by (auto simp add: touch_calibration_get_electrode_delta_def array_read_def)
  from len show "touch_calibration_get_electrode_baseline g e \<noteq> None"
    by (auto simp add: touch_calibration_get_electrode_baseline_def array_read_def)
  from len show "touch_calibration_get_electrode_filtered g e \<noteq> None"
    by (auto simp add: touch_calibration_get_electrode_filtered_def array_read_def)
  from len show "touch_calibration_is_electrode_enabled g e \<noteq> None"
    by (auto simp add: touch_calibration_is_electrode_enabled_def array_read_def)
  from len show "touch_calibration_enable_electrode g e enable \<noteq> None"
    by (auto simp add: touch_calibration_enable_electrode_def array_write_def Let_def)
  show "touch_calibration_is_electrode_touched g config e \<noteq> None"
  proof (cases config)
    case None
    with len show ?thesis
      by (auto simp add: touch_calibration_is_electrode_touched_def array_read_def)
  next
    case (Some c)
    with ok have "length (touch_threshold c) = TOUCH_ELECTRODE_COUNT"
      by (simp add: config_arrays_ok_def)
    with len Some show ?thesis
      by (auto simp add: touch_calibration_is_electrode_touched_def array_read_def)
  qed
qed

text \<open>
  The theorem at index 12, and at index 3 on arrays of twelve elements.
\<close>

theorem calibration_interface_total_out_of_range_witness:
  "12 \<le> unat (12 :: 8 word) \<and>
   touch_calibration_get_electrode_delta
     \<lparr>baseline = replicate 12 200, filtered_data = replicate 12 190, touch_delta = replicate 12 10,
      electrode_enabled = replicate 12 True, last_calibration_time = 0, calibration_needed = False\<rparr> 12 = Some 0 \<and>
   touch_calibration_is_electrode_touched
     \<lparr>baseline = replicate 12 200, filtered_data = replicate 12 190, touch_delta = replicate 12 10,
      electrode_enabled = replicate 12 True, last_calibration_time = 0, calibration_needed = False\<rparr>
     (Some TOUCH_CONFIG_DEFAULT) 12 = Some False \<and>
   touch_calibration_enable_electrode
     \<lparr>baseline = replicate 12 200, filtered_data = replicate 12 190, touch_delta = replicate 12 10,
      electrode_enabled = replicate 12 True, last_calibration_time = 0, calibration_needed = False\<rparr> 12 False =
     Some \<lparr>baseline = replicate 12 200, filtered_data = replicate 12 190, touch_delta = replicate 12 10,
           electrode_enabled = replicate 12 True, last_calibration_time = 0, calibration_needed = False\<rparr> \<and>
   calibration_arrays_ok
     \<lparr>baseline = replicate 12 200, filtered_data = replicate 12 190, touch_delta = replicate 12 10,
      electrode_enabled = replicate 12 True, last_calibration_time = 0, calibration_needed = False\<rparr> \<and>
   config_arrays_ok TOUCH_CONFIG_DEFAULT \<and>
   touch_calibration_is_electrode_touched
     \<lparr>baseline = replicate 12 200, filtered_data = replicate 12 190, touch_delta = replicate 12 10,
      electrode_enabled = replicate 12 True, last_calibration_time = 0, calibration_needed = False\<rparr>
     (Some TOUCH_CONFIG_DEFAULT) 3 \<noteq> None \<and>
   touch_calibration_enable_electrode
     \<lparr>baseline = replicate 12 200, filtered_data = replicate 12 190, touch_delta = replicate 12 10,
      electrode_enabled = replicate 12 True, last_calibration_time = 0, calibration_needed = False\<rparr> 3 False \<noteq> None"
proof -
  let ?g = "\<lparr>baseline = replicate 12 200, filtered_data = replicate 12 190, touch_delta = replicate 12 10,
      electrode_enabled = replicate 12 True, last_calibration_time = 0, calibration_needed = False\<rparr>"
  note main = calibration_interface_total_out_of_range
  have out: "12 \<le> unat (12 :: 8 word)"
    by simp
  have ok: "calibration_arrays_ok ?g \<and>
      (case Some TOUCH_CONFIG_DEFAULT of None \<Rightarrow> True | Some c \<Rightarrow> config_arrays_ok c)"
    by (simp add: calibration_arrays_ok_def config_arrays_ok_def TOUCH_ELECTRODE_COUNT_def TOUCH_CONFIG_DEFAULT_def)
  from main [THEN conjunct1, THEN mp, OF out, of ?g "Some TOUCH_CONFIG_DEFAULT" False]
       main [THEN conjunct2, THEN mp, OF ok, of 3 False]
       out ok
  show ?thesis
    by simp
qed

section \<open>The thresholds the auto-tuner proposes\<close>

text \<open>
  While \<open>2 * noise + 5\<close> fits in eight bits, the proposed touch threshold is the clamped
  value of the specification.
\<close>

lemma recommended_touch_threshold_small_noise:
  assumes "uint noise \<le> 125"
  shows "uint (recommended_touch_threshold noise) = constrain (2 * uint noise + 5) 3 30"
proof -
  have "0 \<le> uint noise" by simp
  with assms have small: "(uint noise * 2 + 5) mod 2 ^ LENGTH(8) = uint noise * 2 + 5"
    by simp
  have c: "0 \<le> constrain (uint noise * 2 + 5) 3 30" "constrain (uint noise * 2 + 5) 3 30 < 256"
    by (simp_all add: constrain_def)
  then have "constrain (uint noise * 2 + 5) 3 30 mod 2 ^ LENGTH(8) = constrain (uint noise * 2 + 5) 3 30"
    by simp
  then show ?thesis
    unfolding recommended_touch_threshold_def Let_def uint_word_of_int small
    by (simp add: mult.commute)
qed

text \<open>
  C7 at a failing input: electrode 0 with baseline 200 and filtered value 74, the other
  electrodes quiet, on the factory configuration. The noise is 126, so
  \<open>2 * noise + 5 = 257\<close>; stored in a \<open>uint8_t\<close> it is 1, and \<open>constrain\<close> lifts it to
  the lower bound 3, where the claim's \<open>clamp(2 * noise + 5, 3, 30)\<close> is 30. The release
  proposal is 15, the difference to the current touch threshold 8 is above 2, and the
  electrode is rewritten to touch 3 and release 15, a pair that
  \<open>touch_config_validate\<close> rejects.
\<close>

theorem auto_tune_truncates_before_clamping:
  "noise_level 200 74 = 126 \<and>
   recommended_touch_threshold 126 = 3 \<and>
   constrain (2 * 126 + 5) 3 30 = 30 \<and>
   recommended_release_threshold 126 = 15 \<and>
   touch_calibration_auto_tune_sensitivity
     \<lparr>baseline = replicate 12 200, filtered_data = 74 # replicate 11 200, touch_delta = 126 # replicate 11 0,
      electrode_enabled = replicate 12 True, last_calibration_time = 0, calibration_needed = False\<rparr>
     (Some TOUCH_CONFIG_DEFAULT) =
     (True,
      Some (TOUCH_CONFIG_DEFAULT\<lparr>touch_threshold := [3, 5, 5, 5, 5, 5, 5, 5, 5, 5, 5, 6],
                                  release_threshold := [15, 2, 2, 2, 2, 2, 2, 2, 2, 2, 2, 3]\<rparr>),
      True) \<and>
   \<not> touch_config_validate
     (Some (TOUCH_CONFIG_DEFAULT\<lparr>touch_threshold := [3, 5, 5, 5, 5, 5, 5, 5, 5, 5, 5, 6],
                                  release_threshold := [15, 2, 2, 2, 2, 2, 2, 2, 2, 2, 2, 3]\<rparr>))"
proof (intro conjI)
  show n: "noise_level 200 74 = 126"
    by (simp add: noise_level_def)
  show t: "recommended_touch_threshold 126 = 3"
    by (simp add: recommended_touch_threshold_def constrain_def)
  show "constrain (2 * 126 + 5) 3 30 = 30"
    by (simp add: constrain_def)
  show r: "recommended_release_threshold 126 = 15"
    by (simp add: recommended_release_threshold_def constrain_def)
  have n0: "noise_level 200 200 = 0"
    by (simp add: noise_level_def)
  have t0: "recommended_touch_threshold 0 = 5"
    by (simp add: recommended_touch_threshold_def constrain_def)
  have r0: "recommended_release_threshold 0 = 2"
    by (simp add: recommended_release_threshold_def constrain_def)
  show "touch_calibration_auto_tune_sensitivity
     \<lparr>baseline = replicate 12 200, filtered_data = 74 # replicate 11 200, touch_delta = 126 # replicate 11 0,
      electrode_enabled = replicate 12 True, last_calibration_time = 0, calibration_needed = False\<rparr>
     (Some TOUCH_CONFIG_DEFAULT) =
     (True,
      Some (TOUCH_CONFIG_DEFAULT\<lparr>touch_threshold := [3, 5, 5, 5, 5, 5, 5, 5, 5, 5, 5, 6],
                                  release_threshold := [15, 2, 2, 2, 2, 2, 2, 2, 2, 2, 2, 3]\<rparr>),
      True)"
    by (simp add: touch_calibration_auto_tune_sensitivity_def TOUCH_ELECTRODE_COUNT_def upt12
        auto_tune_electrode_def TOUCH_CONFIG_DEFAULT_def n t r n0 t0 r0)
  show "\<not> touch_config_validate
     (Some (TOUCH_CONFIG_DEFAULT\<lparr>touch_threshold := [3, 5, 5, 5, 5, 5, 5, 5, 5, 5, 5, 6],
                                  release_threshold := [15, 2, 2, 2, 2, 2, 2, 2, 2, 2, 2, 3]\<rparr>))"
    by (simp add: touch_config_validate_def TOUCH_CONFIG_DEFAULT_def TOUCH_SENSITIVITY_DEFAULT_def
        TOUCH_SENSITIVITY_MIN_def TOUCH_SENSITIVITY_MAX_def TOUCH_ELECTRODE_COUNT_def upt12
        threshold_pair_bad_def)
qed

section \<open>Loading the configuration\<close>

text \<open>The loop that reads the per-electrode keys, field by field and as a whole.\<close>

lemma load_thresholds_fields:
  "global_level (load_thresholds ns i c) = global_level c"
  "custom_per_pad (load_thresholds ns i c) = custom_per_pad c"
  "small_pad_compensation (load_thresholds ns i c) = small_pad_compensation c"
  "debounce_count (load_thresholds ns i c) = debounce_count c"
  "filter_config (load_thresholds ns i c) = filter_config c"
  "auto_calibration (load_thresholds ns i c) = auto_calibration c"
  "calibration_interval_ms (load_thresholds ns i c) = calibration_interval_ms c"
  "length (touch_threshold (load_thresholds ns i c)) = length (touch_threshold c)"
  "length (release_threshold (load_thresholds ns i c)) = length (release_threshold c)"
  "touch_threshold (load_thresholds ns i c) = (touch_threshold c)[i := getUChar ns (''touch_th_'' @ decimal i) 8]"
  "release_threshold (load_thresholds ns i c) = (release_threshold c)[i := getUChar ns (''release_th_'' @ decimal i) 4]"
  by (simp_all add: load_thresholds_def)

lemma fold_load_thresholds_fields:
  "global_level (fold (load_thresholds ns) [0..<k] c) = global_level c"
  "custom_per_pad (fold (load_thresholds ns) [0..<k] c) = custom_per_pad c"
  "small_pad_compensation (fold (load_thresholds ns) [0..<k] c) = small_pad_compensation c"
  "debounce_count (fold (load_thresholds ns) [0..<k] c) = debounce_count c"
  "filter_config (fold (load_thresholds ns) [0..<k] c) = filter_config c"
  "auto_calibration (fold (load_thresholds ns) [0..<k] c) = auto_calibration c"
  "calibration_interval_ms (fold (load_thresholds ns) [0..<k] c) = calibration_interval_ms c"
  "length (touch_threshold (fold (load_thresholds ns) [0..<k] c)) = length (touch_threshold c)"
  "length (release_threshold (fold (load_thresholds ns) [0..<k] c)) = length (release_threshold c)"
  by (induction k; simp add: load_thresholds_fields(1-9))+

lemma fold_load_thresholds_nth:
  assumes "i < length (touch_threshold c)" "i < length (release_threshold c)"
  shows "touch_threshold (fold (load_thresholds ns) [0..<k] c) ! i =
           (if i < k then getUChar ns (''touch_th_'' @ decimal i) 8 else touch_threshold c ! i)"
    and "release_threshold (fold (load_thresholds ns) [0..<k] c) ! i =
           (if i < k then getUChar ns (''release_th_'' @ decimal i) 4 else release_threshold c ! i)"
  using assms
  by (induction k; simp add: load_thresholds_fields fold_load_thresholds_fields nth_list_update less_Suc_eq)+

lemma fold_load_thresholds_all:
  assumes "config_arrays_ok c"
  shows "fold (load_thresholds ns) [0..<TOUCH_ELECTRODE_COUNT] c =
     c\<lparr>touch_threshold := map (\<lambda>i. getUChar ns (''touch_th_'' @ decimal i) 8) [0..<12],
       release_threshold := map (\<lambda>i. getUChar ns (''release_th_'' @ decimal i) 4) [0..<12]\<rparr>"
proof (rule touch_sensitivity_config_t.equality)
  from assms have len: "length (touch_threshold c) = 12" "length (release_threshold c) = 12"
    by (simp_all add: config_arrays_ok_def TOUCH_ELECTRODE_COUNT_def)
  show "touch_threshold (fold (load_thresholds ns) [0..<TOUCH_ELECTRODE_COUNT] c) =
      touch_threshold (c\<lparr>touch_threshold := map (\<lambda>i. getUChar ns (''touch_th_'' @ decimal i) 8) [0..<12],
       release_threshold := map (\<lambda>i. getUChar ns (''release_th_'' @ decimal i) 4) [0..<12]\<rparr>)"
    by (rule nth_equalityI)
       (simp_all add: fold_load_thresholds_fields fold_load_thresholds_nth len TOUCH_ELECTRODE_COUNT_def)
  show "release_threshold (fold (load_thresholds ns) [0..<TOUCH_ELECTRODE_COUNT] c) =
      release_threshold (c\<lparr>touch_threshold := map (\<lambda>i. getUChar ns (''touch_th_'' @ decimal i) 8) [0..<12],
       release_threshold := map (\<lambda>i. getUChar ns (''release_th_'' @ decimal i) 4) [0..<12]\<rparr>)"
    by (rule nth_equalityI)
       (simp_all add: fold_load_thresholds_fields fold_load_thresholds_nth len TOUCH_ELECTRODE_COUNT_def)
qed (simp_all add: fold_load_thresholds_fields)

text \<open>
  On a configuration of the struct's shape the loop of
  \<open>touch_config_set_sensitivity_level\<close> writes both arrays completely, and
  \<open>touch_config_init_defaults\<close> produces the configuration that the header spells out
  as \<open>TOUCH_CONFIG_DEFAULT\<close>, which validates.
\<close>

lemma fold_set_level_all:
  assumes "config_arrays_ok c"
  shows "fold (set_level_thresholds li) [0..<TOUCH_ELECTRODE_COUNT] c =
     c\<lparr>touch_threshold :=
          map (\<lambda>i. fst (if i = TOUCH_SMALL_PAD_ELECTRODE \<and> small_pad_compensation c
                         then small_pad_levels ! unat li else sensitivity_levels ! unat li)) [0..<12],
       release_threshold :=
          map (\<lambda>i. snd (if i = TOUCH_SMALL_PAD_ELECTRODE \<and> small_pad_compensation c
                         then small_pad_levels ! unat li else sensitivity_levels ! unat li)) [0..<12]\<rparr>"
proof (rule touch_sensitivity_config_t.equality)
  from assms have len: "length (touch_threshold c) = 12" "length (release_threshold c) = 12"
    by (simp_all add: config_arrays_ok_def TOUCH_ELECTRODE_COUNT_def)
  show "touch_threshold (fold (set_level_thresholds li) [0..<TOUCH_ELECTRODE_COUNT] c) =
      touch_threshold (c\<lparr>touch_threshold :=
          map (\<lambda>i. fst (if i = TOUCH_SMALL_PAD_ELECTRODE \<and> small_pad_compensation c
                         then small_pad_levels ! unat li else sensitivity_levels ! unat li)) [0..<12],
       release_threshold :=
          map (\<lambda>i. snd (if i = TOUCH_SMALL_PAD_ELECTRODE \<and> small_pad_compensation c
                         then small_pad_levels ! unat li else sensitivity_levels ! unat li)) [0..<12]\<rparr>)"
    by (rule nth_equalityI)
       (simp_all add: fold_set_level_fields fold_set_level_nth len TOUCH_ELECTRODE_COUNT_def)
  show "release_threshold (fold (set_level_thresholds li) [0..<TOUCH_ELECTRODE_COUNT] c) =
      release_threshold (c\<lparr>touch_threshold :=
          map (\<lambda>i. fst (if i = TOUCH_SMALL_PAD_ELECTRODE \<and> small_pad_compensation c
                         then small_pad_levels ! unat li else sensitivity_levels ! unat li)) [0..<12],
       release_threshold :=
          map (\<lambda>i. snd (if i = TOUCH_SMALL_PAD_ELECTRODE \<and> small_pad_compensation c
                         then small_pad_levels ! unat li else sensitivity_levels ! unat li)) [0..<12]\<rparr>)"
    by (rule nth_equalityI)
       (simp_all add: fold_set_level_fields fold_set_level_nth len TOUCH_ELECTRODE_COUNT_def)
qed (simp_all add: fold_set_level_fields)

lemma init_defaults_is_factory:
  assumes "config_arrays_ok c"
  shows "touch_config_init_defaults (Some c) = Some TOUCH_CONFIG_DEFAULT"
proof -
  define c1 where "c1 = c\<lparr>global_level := TOUCH_SENSITIVITY_DEFAULT, custom_per_pad := False,
      small_pad_compensation := True, debounce_count := 2, filter_config := 4,
      auto_calibration := True, calibration_interval_ms := 30000\<rparr>"
  have call: "touch_config_init_defaults (Some c) =
      Some (fold (set_level_thresholds (TOUCH_SENSITIVITY_DEFAULT - 1)) [0..<TOUCH_ELECTRODE_COUNT]
              (c1\<lparr>global_level := TOUCH_SENSITIVITY_DEFAULT\<rparr>))"
    by (simp add: touch_config_init_defaults_def touch_config_set_sensitivity_level_def Let_def c1_def
        TOUCH_SENSITIVITY_DEFAULT_def TOUCH_SENSITIVITY_MIN_def TOUCH_SENSITIVITY_MAX_def)
  from assms have ok: "config_arrays_ok (c1\<lparr>global_level := TOUCH_SENSITIVITY_DEFAULT\<rparr>)"
    by (simp add: config_arrays_ok_def c1_def)
  have "fold (set_level_thresholds (TOUCH_SENSITIVITY_DEFAULT - 1)) [0..<TOUCH_ELECTRODE_COUNT]
              (c1\<lparr>global_level := TOUCH_SENSITIVITY_DEFAULT\<rparr>) = TOUCH_CONFIG_DEFAULT"
    unfolding fold_set_level_all [OF ok]
    by (cases c)
       (simp add: c1_def upt12 TOUCH_SENSITIVITY_DEFAULT_def TOUCH_SMALL_PAD_ELECTRODE_def
          sensitivity_levels_def small_pad_levels_def TOUCH_CONFIG_DEFAULT_def)
  with call show ?thesis
    by simp
qed

lemma factory_config_valid: "touch_config_validate (Some TOUCH_CONFIG_DEFAULT)"
  by (simp add: touch_config_validate_def TOUCH_CONFIG_DEFAULT_def TOUCH_SENSITIVITY_DEFAULT_def
      TOUCH_SENSITIVITY_MIN_def TOUCH_SENSITIVITY_MAX_def TOUCH_ELECTRODE_COUNT_def upt12 threshold_pair_bad_def)

text \<open>
  C9, for a store whose namespace opens. Every field is read from its key, a key that is
  absent (or holds a value of another type) giving the fallback value written in the
  call. If the record read in this way passes \<open>touch_config_validate\<close>, the call returns
  true and the configuration is that record; otherwise the call returns false and the
  configuration is \<open>TOUCH_CONFIG_DEFAULT\<close>. In both cases the configuration validates
  after the call, and nothing of the configuration before the call remains.
\<close>

theorem load_from_nvs_opened_store:
  assumes "config_arrays_ok c"
  shows "let stored =
           \<lparr>global_level = getUChar ns ''global_level'' 3,
            touch_threshold = map (\<lambda>i. getUChar ns (''touch_th_'' @ decimal i) 8) [0..<12],
            release_threshold = map (\<lambda>i. getUChar ns (''release_th_'' @ decimal i) 4) [0..<12],
            custom_per_pad = getBool ns ''custom_per_pad'' False,
            small_pad_compensation = getBool ns ''small_pad_comp'' True,
            debounce_count = getUChar ns ''debounce_count'' 2,
            filter_config = getUChar ns ''filter_config'' 4,
            auto_calibration = getBool ns ''auto_cal'' True,
            calibration_interval_ms = getULong ns ''cal_interval'' 30000\<rparr>
         in touch_config_load_from_nvs (Some ns) (Some c) =
              (if touch_config_validate (Some stored) then (True, Some stored)
               else (False, Some TOUCH_CONFIG_DEFAULT)) \<and>
            touch_config_validate (snd (touch_config_load_from_nvs (Some ns) (Some c)))"
proof -
  define c1 where "c1 = c\<lparr>global_level := getUChar ns ''global_level'' TOUCH_SENSITIVITY_DEFAULT,
                           custom_per_pad := getBool ns ''custom_per_pad'' False,
                           small_pad_compensation := getBool ns ''small_pad_comp'' True,
                           debounce_count := getUChar ns ''debounce_count'' 2,
                           filter_config := getUChar ns ''filter_config'' 4,
                           auto_calibration := getBool ns ''auto_cal'' True,
                           calibration_interval_ms := getULong ns ''cal_interval'' 30000\<rparr>"
  define stored where "stored =
           \<lparr>global_level = getUChar ns ''global_level'' 3,
            touch_threshold = map (\<lambda>i. getUChar ns (''touch_th_'' @ decimal i) 8) [0..<12],
            release_threshold = map (\<lambda>i. getUChar ns (''release_th_'' @ decimal i) 4) [0..<12],
            custom_per_pad = getBool ns ''custom_per_pad'' False,
            small_pad_compensation = getBool ns ''small_pad_comp'' True,
            debounce_count = getUChar ns ''debounce_count'' 2,
            filter_config = getUChar ns ''filter_config'' 4,
            auto_calibration = getBool ns ''auto_cal'' True,
            calibration_interval_ms = getULong ns ''cal_interval'' 30000\<rparr>"
  from assms have ok1: "config_arrays_ok c1"
    by (simp add: config_arrays_ok_def c1_def)
  have read: "fold (load_thresholds ns) [0..<TOUCH_ELECTRODE_COUNT] c1 = stored"
    unfolding fold_load_thresholds_all [OF ok1]
    by (cases c) (simp add: c1_def stored_def TOUCH_SENSITIVITY_DEFAULT_def)
  have oks: "config_arrays_ok stored"
    by (simp add: config_arrays_ok_def stored_def TOUCH_ELECTRODE_COUNT_def)
  have call: "touch_config_load_from_nvs (Some ns) (Some c) =
      (if touch_config_validate (Some stored) then (True, Some stored)
       else (False, Some TOUCH_CONFIG_DEFAULT))"
    using read init_defaults_is_factory [OF oks]
    by (simp add: touch_config_load_from_nvs_def Let_def c1_def [symmetric])
  have "touch_config_validate (snd (touch_config_load_from_nvs (Some ns) (Some c)))"
    unfolding call by (simp add: factory_config_valid)
  with call show ?thesis
    unfolding Let_def stored_def by blast
qed

text \<open>
  The theorem on the zero-initialised configuration: a namespace holding level 5 and
  thresholds \<open>(20, 5)\<close> for electrode 0 is returned as stored, the other electrodes at
  the fallback \<open>(8, 4)\<close>; a namespace whose electrode 10 has touch threshold 3, below the
  fallback release threshold 4, fails validation and gives the factory configuration.
\<close>

theorem load_from_nvs_opened_store_witness:
  "config_arrays_ok
     \<lparr>global_level = 0, touch_threshold = replicate 12 0, release_threshold = replicate 12 0,
      custom_per_pad = False, small_pad_compensation = False, debounce_count = 0, filter_config = 0,
      auto_calibration = False, calibration_interval_ms = 0\<rparr> \<and>
   touch_config_load_from_nvs
     (Some [''global_level'' \<mapsto> NVS_UChar 5, ''touch_th_0'' \<mapsto> NVS_UChar 20, ''release_th_0'' \<mapsto> NVS_UChar 5])
     (Some \<lparr>global_level = 0, touch_threshold = replicate 12 0, release_threshold = replicate 12 0,
            custom_per_pad = False, small_pad_compensation = False, debounce_count = 0, filter_config = 0,
            auto_calibration = False, calibration_interval_ms = 0\<rparr>) =
     (True, Some \<lparr>global_level = 5,
                  touch_threshold = [20, 8, 8, 8, 8, 8, 8, 8, 8, 8, 8, 8],
                  release_threshold = [5, 4, 4, 4, 4, 4, 4, 4, 4, 4, 4, 4],
                  custom_per_pad = False, small_pad_compensation = True, debounce_count = 2,
                  filter_config = 4, auto_calibration = True, calibration_interval_ms = 30000\<rparr>) \<and>
   touch_config_load_from_nvs
     (Some [''global_level'' \<mapsto> NVS_UChar 5, ''touch_th_10'' \<mapsto> NVS_UChar 3])
     (Some \<lparr>global_level = 0, touch_threshold = replicate 12 0, release_threshold = replicate 12 0,
            custom_per_pad = False, small_pad_compensation = False, debounce_count = 0, filter_config = 0,
            auto_calibration = False, calibration_interval_ms = 0\<rparr>) =
     (False, Some TOUCH_CONFIG_DEFAULT)"
proof -
  let ?z = "\<lparr>global_level = 0, touch_threshold = replicate 12 0, release_threshold = replicate 12 0,
      custom_per_pad = False, small_pad_compensation = False, debounce_count = 0, filter_config = 0,
      auto_calibration = False, calibration_interval_ms = 0\<rparr> :: touch_sensitivity_config_t"
  have ok: "config_arrays_ok ?z"
    by (simp add: config_arrays_ok_def TOUCH_ELECTRODE_COUNT_def)
  have a: "touch_config_load_from_nvs
     (Some [''global_level'' \<mapsto> NVS_UChar 5, ''touch_th_0'' \<mapsto> NVS_UChar 20, ''release_th_0'' \<mapsto> NVS_UChar 5])
     (Some ?z) =
     (True, Some \<lparr>global_level = 5,
                  touch_threshold = [20, 8, 8, 8, 8, 8, 8, 8, 8, 8, 8, 8],
                  release_threshold = [5, 4, 4, 4, 4, 4, 4, 4, 4, 4, 4, 4],
                  custom_per_pad = False, small_pad_compensation = True, debounce_count = 2,
                  filter_config = 4, auto_calibration = True, calibration_interval_ms = 30000\<rparr>)"
    using load_from_nvs_opened_store [OF ok,
        of "[''global_level'' \<mapsto> NVS_UChar 5, ''touch_th_0'' \<mapsto> NVS_UChar 20, ''release_th_0'' \<mapsto> NVS_UChar 5]"]
    by (simp add: Let_def upt12 decimal_def getUChar_def getBool_def getULong_def
        touch_config_validate_def TOUCH_SENSITIVITY_MIN_def TOUCH_SENSITIVITY_MAX_def
        TOUCH_ELECTRODE_COUNT_def threshold_pair_bad_def)
  have b: "touch_config_load_from_nvs
     (Some [''global_level'' \<mapsto> NVS_UChar 5, ''touch_th_10'' \<mapsto> NVS_UChar 3])
     (Some ?z) = (False, Some TOUCH_CONFIG_DEFAULT)"
    using load_from_nvs_opened_store [OF ok,
        of "[''global_level'' \<mapsto> NVS_UChar 5, ''touch_th_10'' \<mapsto> NVS_UChar 3]"]
    by (simp add: Let_def upt12 decimal_def getUChar_def getBool_def getULong_def
        touch_config_validate_def TOUCH_SENSITIVITY_MIN_def TOUCH_SENSITIVITY_MAX_def
        TOUCH_ELECTRODE_COUNT_def threshold_pair_bad_def)
  from ok a b show ?thesis
    by blast
qed

text \<open>
  C9 as stated fails. When the namespace cannot be opened, the call returns false at
  once: the zero-initialised configuration of the firmware's start is left as it is,
  which neither validates nor is the factory configuration. And a namespace that opens
  with no key in it (a missing record) is read as level 3 with thresholds \<open>(8, 4)\<close> on
  every electrode: the call returns true, and electrode 11 differs from the factory
  configuration's \<open>(6, 3)\<close>.
\<close>

theorem load_from_nvs_unopened_store_counterexample:
  "touch_config_load_from_nvs None
     (Some \<lparr>global_level = 0, touch_threshold = replicate 12 0, release_threshold = replicate 12 0,
            custom_per_pad = False, small_pad_compensation = False, debounce_count = 0, filter_config = 0,
            auto_calibration = False, calibration_interval_ms = 0\<rparr>) =
     (False,
      Some \<lparr>global_level = 0, touch_threshold = replicate 12 0, release_threshold = replicate 12 0,
            custom_per_pad = False, small_pad_compensation = False, debounce_count = 0, filter_config = 0,
            auto_calibration = False, calibration_interval_ms = 0\<rparr>) \<and>
   \<not> touch_config_validate
     (Some \<lparr>global_level = 0, touch_threshold = replicate 12 0, release_threshold = replicate 12 0,
            custom_per_pad = False, small_pad_compensation = False, debounce_count = 0, filter_config = 0,
            auto_calibration = False, calibration_interval_ms = 0\<rparr>) \<and>
   touch_config_load_from_nvs (Some Map.empty)
     (Some \<lparr>global_level = 0, touch_threshold = replicate 12 0, release_threshold = replicate 12 0,
            custom_per_pad = False, small_pad_compensation = False, debounce_count = 0, filter_config = 0,
            auto_calibration = False, calibration_interval_ms = 0\<rparr>) =
     (True, Some (TOUCH_CONFIG_DEFAULT\<lparr>touch_threshold := [8, 8, 8, 8, 8, 8, 8, 8, 8, 8, 8, 8],
                                         release_threshold := [4, 4, 4, 4, 4, 4, 4, 4, 4, 4, 4, 4]\<rparr>)) \<and>
   TOUCH_CONFIG_DEFAULT\<lparr>touch_threshold := [8, 8, 8, 8, 8, 8, 8, 8, 8, 8, 8, 8],
                        release_threshold := [4, 4, 4, 4, 4, 4, 4, 4, 4, 4, 4, 4]\<rparr> \<noteq> TOUCH_CONFIG_DEFAULT"
proof (intro conjI)
  show "touch_config_load_from_nvs None
     (Some \<lparr>global_level = 0, touch_threshold = replicate 12 0, release_threshold = replicate 12 0,
            custom_per_pad = False, small_pad_compensation = False, debounce_count = 0, filter_config = 0,
            auto_calibration = False, calibration_interval_ms = 0\<rparr>) =
     (False,
      Some \<lparr>global_level = 0, touch_threshold = replicate 12 0, release_threshold = replicate 12 0,
            custom_per_pad = False, small_pad_compensation = False, debounce_count = 0, filter_config = 0,
            auto_calibration = False, calibration_interval_ms = 0\<rparr>)"
    by (simp add: touch_config_load_from_nvs_def)
  show "\<not> touch_config_validate
     (Some \<lparr>global_level = 0, touch_threshold = replicate 12 0, release_threshold = replicate 12 0,
            custom_per_pad = False, small_pad_compensation = False, debounce_count = 0, filter_config = 0,
            auto_calibration = False, calibration_interval_ms = 0\<rparr>)"
    by (simp add: touch_config_validate_def TOUCH_SENSITIVITY_MIN_def)
  show "touch_config_load_from_nvs (Some Map.empty)
     (Some \<lparr>global_level = 0, touch_threshold = replicate 12 0, release_threshold = replicate 12 0,
            custom_per_pad = False, small_pad_compensation = False, debounce_count = 0, filter_config = 0,
            auto_calibration = False, calibration_interval_ms = 0\<rparr>) =
     (True, Some (TOUCH_CONFIG_DEFAULT\<lparr>touch_threshold := [8, 8, 8, 8, 8, 8, 8, 8, 8, 8, 8, 8],
                                         release_threshold := [4, 4, 4, 4, 4, 4, 4, 4, 4, 4, 4, 4]\<rparr>))"
    by (simp add: touch_config_load_from_nvs_def Let_def TOUCH_ELECTRODE_COUNT_def upt12 replicate12
        load_thresholds_def getUChar_def getBool_def getULong_def
        touch_config_validate_def TOUCH_SENSITIVITY_MIN_def TOUCH_SENSITIVITY_MAX_def
        TOUCH_SENSITIVITY_DEFAULT_def threshold_pair_bad_def TOUCH_CONFIG_DEFAULT_def)
  show "TOUCH_CONFIG_DEFAULT\<lparr>touch_threshold := [8, 8, 8, 8, 8, 8, 8, 8, 8, 8, 8, 8],
                        release_threshold := [4, 4, 4, 4, 4, 4, 4, 4, 4, 4, 4, 4]\<rparr> \<noteq> TOUCH_CONFIG_DEFAULT"
    by (simp add: TOUCH_CONFIG_DEFAULT_def)
qed

section \<open>Facts about single precision\<close>

text \<open>
  What the claims about the wheel need of \<open>f32\<close>: a whole number of fewer than 24 bits
  times a power of two is left alone; the result is within half a unit of the binade of
  the exact value; rounding never crosses a binary32 value; and taking \<open>1\<close> from a
  binary32 value between \<open>1/2\<close> and \<open>2 ^ 24\<close> is exact.
\<close>

subsection \<open>Rounding to a whole number\<close>

lemma round_even_of_int: "round_even (of_int k) = k"
  by (simp add: round_even_def)

lemma round_even_floor_cases:
  "round_even q = \<lfloor>q\<rfloor> \<or> (round_even q = \<lfloor>q\<rfloor> + 1 \<and> 1 / 2 \<le> q - of_int \<lfloor>q\<rfloor>)"
  by (auto simp add: round_even_def Let_def)

lemma round_even_error: "\<bar>of_int (round_even q) - q\<bar> \<le> 1 / 2"
proof -
  have f1: "of_int \<lfloor>q\<rfloor> \<le> q"
    by (rule of_int_floor_le)
  have f2: "q < of_int \<lfloor>q\<rfloor> + 1"
    by linarith
  show ?thesis
  proof (cases "q - of_int \<lfloor>q\<rfloor> < 1 / 2")
    case True
    then have "round_even q = \<lfloor>q\<rfloor>"
      by (simp add: round_even_def Let_def)
    with True f1 show ?thesis
      by simp
  next
    case False
    note nlt = this
    show ?thesis
    proof (cases "q - of_int \<lfloor>q\<rfloor> > 1 / 2")
      case True
      with nlt have "round_even q = \<lfloor>q\<rfloor> + 1"
        by (simp add: round_even_def Let_def)
      with True f2 show ?thesis
        by simp
    next
      case False
      with nlt have h: "q - of_int \<lfloor>q\<rfloor> = 1 / 2"
        by simp
      have "round_even q = \<lfloor>q\<rfloor> \<or> round_even q = \<lfloor>q\<rfloor> + 1"
        using round_even_floor_cases [of q] by blast
      then show ?thesis
      proof
        assume "round_even q = \<lfloor>q\<rfloor>"
        with h show ?thesis by simp
      next
        assume "round_even q = \<lfloor>q\<rfloor> + 1"
        with h show ?thesis by simp
      qed
    qed
  qed
qed

lemma round_even_le: "q \<le> of_int k \<Longrightarrow> round_even q \<le> k"
proof -
  assume qk: "q \<le> of_int k"
  have fk: "\<lfloor>q\<rfloor> \<le> k"
    using qk by (simp add: floor_le_iff)
  from round_even_floor_cases [of q] show ?thesis
  proof
    assume "round_even q = \<lfloor>q\<rfloor>"
    with fk show ?thesis by simp
  next
    assume a: "round_even q = \<lfloor>q\<rfloor> + 1 \<and> 1 / 2 \<le> q - of_int \<lfloor>q\<rfloor>"
    then have "of_int \<lfloor>q\<rfloor> < q"
      by simp
    with qk have "(of_int \<lfloor>q\<rfloor> :: rat) < of_int k"
      by simp
    then have "\<lfloor>q\<rfloor> < k"
      by (simp only: of_int_less_iff)
    with a show ?thesis by simp
  qed
qed

lemma round_even_ge: "of_int k \<le> q \<Longrightarrow> k \<le> round_even q"
proof -
  assume "of_int k \<le> q"
  then have "k \<le> \<lfloor>q\<rfloor>"
    by (simp add: le_floor_iff)
  with round_even_floor_cases [of q] show ?thesis
    by auto
qed

subsection \<open>The binade of a number\<close>

lemma two_powi_Suc: "(2 :: rat) powi (k + 1) = 2 powi k * 2"
  by (simp add: power_int_add)

lemma two_powi_pred: "(2 :: rat) powi (k - 1) = 2 powi k / 2"
  by (simp add: power_int_diff)

lemma exp_up_bounds: "1 \<le> x \<Longrightarrow> 2 powi exp_up x \<le> x \<and> x < 2 powi (exp_up x + 1)"
proof (induction x rule: exp_up.induct)
  case (1 x)
  show ?case
  proof (cases "2 \<le> x")
    case True
    then have "1 \<le> x / 2"
      by simp
    with 1 True have IH: "2 powi exp_up (x / 2) \<le> x / 2 \<and> x / 2 < 2 powi (exp_up (x / 2) + 1)"
      by simp
    have e: "exp_up x = exp_up (x / 2) + 1"
      using True by (simp add: exp_up.simps [of x])
    from IH show ?thesis
      unfolding e two_powi_Suc by simp
  next
    case False
    then have "exp_up x = 0"
      by (simp add: exp_up.simps [of x])
    with False 1(2) show ?thesis
      by simp
  qed
qed

lemma exp_down_bounds:
  "0 < x \<Longrightarrow> x < 1 \<Longrightarrow> 2 powi exp_down x \<le> x \<and> x < 2 powi (exp_down x + 1)"
proof (induction x rule: exp_down.induct)
  case (1 x)
  have e: "exp_down x = exp_down (x * 2) - 1"
    using 1(2,3) by (simp add: exp_down.simps [of x])
  show ?case
  proof (cases "x * 2 < 1")
    case True
    with 1 have IH: "2 powi exp_down (x * 2) \<le> x * 2 \<and> x * 2 < 2 powi (exp_down (x * 2) + 1)"
      by simp
    from IH show ?thesis
      unfolding e two_powi_pred by (simp add: two_powi_Suc)
  next
    case False
    then have "exp_down (x * 2) = 0"
      by (simp add: exp_down.simps [of "x * 2"])
    with False 1(3) show ?thesis
      unfolding e by simp
  qed
qed

lemma binade_bounds:
  assumes "x \<noteq> 0"
  shows "2 powi binade x \<le> \<bar>x\<bar>" and "\<bar>x\<bar> < 2 powi (binade x + 1)"
proof -
  have "2 powi binade x \<le> \<bar>x\<bar> \<and> \<bar>x\<bar> < 2 powi (binade x + 1)"
  proof (cases "1 \<le> \<bar>x\<bar>")
    case True
    then show ?thesis
      using exp_up_bounds [of "\<bar>x\<bar>"] by (simp add: binade_def)
  next
    case False
    moreover from assms have "0 < \<bar>x\<bar>"
      by simp
    ultimately show ?thesis
      using exp_down_bounds [of "\<bar>x\<bar>"] by (simp add: binade_def)
  qed
  then show "2 powi binade x \<le> \<bar>x\<bar>" and "\<bar>x\<bar> < 2 powi (binade x + 1)"
    by simp_all
qed

lemma two_powi_less_imp: "(2 :: rat) powi a < 2 powi b \<Longrightarrow> a < b"
proof (rule ccontr)
  assume l: "(2 :: rat) powi a < 2 powi b" and "\<not> a < b"
  then have "b \<le> a"
    by simp
  then have "(2 :: rat) powi b \<le> 2 powi a"
    by (intro power_int_increasing) simp_all
  with l show False
    by simp
qed

lemma binadeI:
  assumes "2 powi e \<le> \<bar>x\<bar>" and "\<bar>x\<bar> < 2 powi (e + 1)"
  shows "binade x = e"
proof -
  have "(0 :: rat) < 2 powi e"
    by simp
  with assms(1) have "0 < \<bar>x\<bar>"
    by linarith
  then have nz: "x \<noteq> 0"
    by simp
  note b = binade_bounds [OF nz]
  from assms(1) b(2) have "(2 :: rat) powi e < 2 powi (binade x + 1)"
    by (rule le_less_trans)
  then have "e < binade x + 1"
    by (rule two_powi_less_imp)
  moreover from b(1) assms(2) have "(2 :: rat) powi binade x < 2 powi (e + 1)"
    by (rule le_less_trans)
  then have "binade x < e + 1"
    by (rule two_powi_less_imp)
  ultimately show ?thesis
    by simp
qed

subsection \<open>Rounding to binary32\<close>

lemma f32_zero: "f32 0 = 0"
  by (simp add: f32_def)

lemma f32_unfold:
  "x \<noteq> 0 \<Longrightarrow> f32 x = of_int (round_even (x / 2 powi (binade x - 23))) * 2 powi (binade x - 23)"
  by (simp add: f32_def Let_def)

lemma f32_eqI:
  assumes "2 powi e \<le> \<bar>x\<bar>" and "\<bar>x\<bar> < 2 powi (e + 1)"
  shows "f32 x = of_int (round_even (x / 2 powi (e - 23))) * 2 powi (e - 23)"
proof -
  have "(0 :: rat) < 2 powi e"
    by simp
  with assms(1) have "0 < \<bar>x\<bar>"
    by linarith
  then have nz: "x \<noteq> 0"
    by simp
  from assms have "binade x = e"
    by (rule binadeI)
  with f32_unfold [OF nz] show ?thesis
    by simp
qed

lemma f32_grid_le:
  assumes "x \<noteq> 0" and "x \<le> of_int k * 2 powi (binade x - 23)"
  shows "f32 x \<le> of_int k * 2 powi (binade x - 23)"
proof -
  define u :: rat where "u = 2 powi (binade x - 23)"
  have u: "0 < u"
    by (simp add: u_def)
  from assms(2) u have "x / u \<le> of_int k"
    by (simp add: u_def pos_divide_le_eq)
  then have "round_even (x / u) \<le> k"
    by (rule round_even_le)
  then have "(of_int (round_even (x / u)) :: rat) \<le> of_int k"
    by (simp only: of_int_le_iff)
  with u have "of_int (round_even (x / u)) * u \<le> of_int k * u"
    by (simp only: mult_le_cancel_right_pos)
  then show ?thesis
    unfolding f32_unfold [OF assms(1)] u_def .
qed

lemma f32_grid_ge:
  assumes "x \<noteq> 0" and "of_int k * 2 powi (binade x - 23) \<le> x"
  shows "of_int k * 2 powi (binade x - 23) \<le> f32 x"
proof -
  define u :: rat where "u = 2 powi (binade x - 23)"
  have u: "0 < u"
    by (simp add: u_def)
  from assms(2) u have "of_int k \<le> x / u"
    by (simp add: u_def pos_le_divide_eq)
  then have "k \<le> round_even (x / u)"
    by (rule round_even_ge)
  then have "(of_int k :: rat) \<le> of_int (round_even (x / u))"
    by (simp only: of_int_le_iff)
  with u have "of_int k * u \<le> of_int (round_even (x / u)) * u"
    by (simp only: mult_le_cancel_right_pos)
  then show ?thesis
    unfolding f32_unfold [OF assms(1)] u_def .
qed

lemma two_powi_nat: "0 \<le> j \<Longrightarrow> (2 :: rat) powi j = of_int (2 ^ nat j)"
  by (simp add: power_int_nonneg_exp)

lemma two_powi_split: "(2 :: rat) powi a = 2 powi (a - b) * 2 powi b"
proof -
  have "(2 :: rat) powi ((a - b) + b) = 2 powi (a - b) * 2 powi b"
    by (rule power_int_add) simp
  then show ?thesis
    by simp
qed

lemma f32_exact:
  assumes "\<bar>m\<bar> < 2 ^ 24"
  shows "f32 (of_int m * 2 powi k) = of_int m * 2 powi k"
proof (cases "m = 0")
  case True
  then show ?thesis
    by (simp add: f32_zero)
next
  case False
  define x :: rat where "x = of_int m * 2 powi k"
  define e where "e = binade x"
  have nz: "x \<noteq> 0"
    using False by (simp add: x_def)
  have absx: "\<bar>x\<bar> = of_int \<bar>m\<bar> * 2 powi k"
    by (simp add: x_def abs_mult)
  from assms have "(of_int \<bar>m\<bar> :: rat) < of_int (2 ^ 24)"
    by (simp only: of_int_less_iff)
  then have "(of_int \<bar>m\<bar> :: rat) < 2 powi 24"
    by simp
  then have "of_int \<bar>m\<bar> * (2 :: rat) powi k < 2 powi 24 * 2 powi k"
    by (simp only: mult_less_cancel_right_pos zero_less_power_int zero_less_numeral)
  also have "(2 :: rat) powi 24 * 2 powi k = 2 powi (24 + k)"
    by (rule power_int_add [symmetric]) simp
  finally have "\<bar>x\<bar> < 2 powi (24 + k)"
    by (simp only: absx)
  with binade_bounds(1) [OF nz] have "(2 :: rat) powi e < 2 powi (24 + k)"
    unfolding e_def by (rule le_less_trans)
  then have "e < 24 + k"
    by (rule two_powi_less_imp)
  then have j: "0 \<le> k - (e - 23)"
    by simp
  have "(2 :: rat) powi k = 2 powi (k - (e - 23)) * 2 powi (e - 23)"
    by (rule two_powi_split)
  also have "(2 :: rat) powi (k - (e - 23)) = of_int (2 ^ nat (k - (e - 23)))"
    using j by (rule two_powi_nat)
  finally have pk: "(2 :: rat) powi k = of_int (2 ^ nat (k - (e - 23))) * 2 powi (e - 23)" .
  have "x / 2 powi (e - 23) = of_int (m * 2 ^ nat (k - (e - 23)))"
    unfolding x_def by (subst pk) simp
  then have "round_even (x / 2 powi (e - 23)) = m * 2 ^ nat (k - (e - 23))"
    by (simp only: round_even_of_int)
  then have "f32 x = of_int (m * 2 ^ nat (k - (e - 23))) * 2 powi (e - 23)"
    unfolding f32_unfold [OF nz] e_def by simp
  also have "\<dots> = of_int m * (of_int (2 ^ nat (k - (e - 23))) * 2 powi (e - 23))"
    by simp
  also have "\<dots> = x"
    unfolding x_def pk [symmetric] ..
  finally show ?thesis
    unfolding x_def .
qed

lemma f32_repr:
  assumes "is_f32 x" and "x \<noteq> 0"
  shows "\<exists>m. x = of_int m * 2 powi (binade x - 23) \<and> \<bar>m\<bar> < 2 ^ 24"
proof -
  define u :: rat where "u = 2 powi (binade x - 23)"
  define m where "m = round_even (x / u)"
  have u: "0 < u"
    by (simp add: u_def)
  from assms(1) have "f32 x = x"
    by (simp add: is_f32_def)
  then have x: "x = of_int m * u"
    unfolding f32_unfold [OF assms(2)] m_def u_def by simp
  have "(2 :: rat) powi (binade x + 1) = 2 powi (binade x + 1 - (binade x - 23)) * u"
    unfolding u_def by (rule two_powi_split)
  then have "(2 :: rat) powi (binade x + 1) = of_int (2 ^ 24) * u"
    by simp
  with binade_bounds(2) [OF assms(2)] have "\<bar>x\<bar> < of_int (2 ^ 24) * u"
    by simp
  moreover have "\<bar>x\<bar> = of_int \<bar>m\<bar> * u"
    using u by (simp add: x abs_mult)
  ultimately have "of_int \<bar>m\<bar> * u < of_int (2 ^ 24) * u"
    by simp
  with u have "(of_int \<bar>m\<bar> :: rat) < of_int (2 ^ 24)"
    by (simp only: mult_less_cancel_right_pos)
  then have "\<bar>m\<bar> < 2 ^ 24"
    by (simp only: of_int_less_iff)
  with x show ?thesis
    unfolding u_def by blast
qed

lemma f32_half_ulp:
  assumes "x \<noteq> 0"
  shows "\<bar>f32 x - x\<bar> \<le> 2 powi (binade x - 24)"
proof -
  define u :: rat where "u = 2 powi (binade x - 23)"
  define m where "m = round_even (x / u)"
  have u: "0 < u"
    by (simp add: u_def)
  have "f32 x - x = (of_int m - x / u) * u"
    unfolding f32_unfold [OF assms] m_def u_def by (simp add: algebra_simps)
  then have "\<bar>f32 x - x\<bar> = \<bar>of_int m - x / u\<bar> * u"
    using u by (simp add: abs_mult)
  also have "\<dots> \<le> (1 / 2) * u"
    using u round_even_error [of "x / u"] unfolding m_def
    by (simp only: mult_le_cancel_right_pos)
  also have "(1 / 2) * u = 2 powi (binade x - 24)"
  proof -
    have "(2 :: rat) powi (binade x - 23) = 2 powi (binade x - 24 + 1)"
      by simp
    also have "\<dots> = 2 powi (binade x - 24) * 2"
      by (rule two_powi_Suc)
    finally show ?thesis
      unfolding u_def by simp
  qed
  finally show ?thesis .
qed

lemma f32_error:
  assumes "\<bar>x\<bar> \<le> 2 powi k"
  shows "\<bar>f32 x - x\<bar> \<le> 2 powi (k - 25)"
proof (cases "x = 0")
  case True
  then show ?thesis
    by (simp add: f32_zero)
next
  case False
  show ?thesis
  proof (cases "\<bar>x\<bar> = 2 powi k")
    case True
    then have "x = of_int 1 * 2 powi k \<or> x = of_int (- 1) * 2 powi k"
      by (auto simp add: abs_if split: if_splits)
    then have "f32 x = x"
    proof
      assume a: "x = of_int 1 * 2 powi k"
      show ?thesis
        by (subst (1 2) a, rule f32_exact) simp
    next
      assume a: "x = of_int (- 1) * 2 powi k"
      show ?thesis
        by (subst (1 2) a, rule f32_exact) simp
    qed
    then show ?thesis
      by simp
  next
    case False
    with assms have "\<bar>x\<bar> < 2 powi k"
      by simp
    with binade_bounds(1) [OF \<open>x \<noteq> 0\<close>] have "(2 :: rat) powi binade x < 2 powi k"
      by (rule le_less_trans)
    then have "binade x < k"
      by (rule two_powi_less_imp)
    then have "binade x - 24 \<le> k - 25"
      by simp
    then have "(2 :: rat) powi (binade x - 24) \<le> 2 powi (k - 25)"
      by (intro power_int_increasing) simp_all
    with f32_half_ulp [OF \<open>x \<noteq> 0\<close>] show ?thesis
      by (rule order_trans)
  qed
qed

lemma f32_idem: "is_f32 (f32 x)"
proof (cases "x = 0")
  case True
  then show ?thesis
    by (simp add: is_f32_def f32_zero)
next
  case False
  define u :: rat where "u = 2 powi (binade x - 23)"
  define m where "m = round_even (x / u)"
  have u: "0 < u"
    by (simp add: u_def)
  have fx: "f32 x = of_int m * u"
    unfolding f32_unfold [OF False] m_def u_def ..
  have "(2 :: rat) powi (binade x + 1) = 2 powi (binade x + 1 - (binade x - 23)) * u"
    unfolding u_def by (rule two_powi_split)
  then have top: "(2 :: rat) powi (binade x + 1) = of_int (2 ^ 24) * u"
    by simp
  with binade_bounds(2) [OF False] have ax: "\<bar>x\<bar> < of_int (2 ^ 24) * u"
    by simp
  then have "x < of_int (2 ^ 24) * u"
    by linarith
  with u have "x / u \<le> of_int (2 ^ 24)"
    by (simp add: pos_divide_le_eq)
  then have m_le: "m \<le> 2 ^ 24"
    unfolding m_def by (rule round_even_le)
  from ax have "- (of_int (2 ^ 24) * u) < x"
    by linarith
  with u have "of_int (- (2 ^ 24)) \<le> x / u"
    by (simp add: pos_le_divide_eq)
  then have m_ge: "- (2 ^ 24) \<le> m"
    unfolding m_def by (rule round_even_ge)
  have u2: "u * 2 = 2 powi (binade x - 23 + 1)"
    unfolding u_def by (rule two_powi_Suc [symmetric])
  consider "\<bar>m\<bar> < 2 ^ 24" | "m = 2 ^ 24" | "m = - (2 ^ 24)"
    using m_le m_ge by linarith
  then have "f32 (of_int m * u) = of_int m * u"
  proof cases
    case 1
    then show ?thesis
      unfolding u_def by (rule f32_exact)
  next
    case 2
    have "of_int m * u = of_int (2 ^ 23) * (u * 2)"
      by (simp add: 2)
    then have e: "of_int m * u = of_int (2 ^ 23) * 2 powi (binade x - 23 + 1)"
      by (simp only: u2)
    show ?thesis
      by (subst (1 2) e, rule f32_exact) simp
  next
    case 3
    have "of_int m * u = of_int (- (2 ^ 23)) * (u * 2)"
      by (simp add: 3)
    then have e: "of_int m * u = of_int (- (2 ^ 23)) * 2 powi (binade x - 23 + 1)"
      by (simp only: u2)
    show ?thesis
      by (subst (1 2) e, rule f32_exact) simp
  qed
  then show ?thesis
    by (simp add: is_f32_def fx)
qed

lemma is_f32_grid:
  assumes "is_f32 b" and "b \<noteq> 0" and "e \<le> binade b"
  shows "\<exists>k. b = of_int k * 2 powi (e - 23)"
proof -
  from f32_repr [OF assms(1,2)] obtain m where b: "b = of_int m * 2 powi (binade b - 23)"
    by blast
  have "(2 :: rat) powi (binade b - 23) = 2 powi (binade b - 23 - (e - 23)) * 2 powi (e - 23)"
    by (rule two_powi_split)
  also have "(2 :: rat) powi (binade b - 23 - (e - 23)) = of_int (2 ^ nat (binade b - 23 - (e - 23)))"
    using assms(3) by (intro two_powi_nat) simp
  finally have "b = of_int (m * 2 ^ nat (binade b - 23 - (e - 23))) * 2 powi (e - 23)"
    by (subst b) simp
  then show ?thesis ..
qed

lemma two_powi_not_neg: "\<not> (2 :: rat) powi k < 0"
  by (simp add: not_less)

lemma two_powi_top: "(2 :: rat) powi e = of_int (2 ^ 23) * 2 powi (e - 23)"
proof -
  have "(2 :: rat) powi e = 2 powi (e - (e - 23)) * 2 powi (e - 23)"
    by (rule two_powi_split)
  then show ?thesis
    by simp
qed

lemma f32_le:
  assumes "is_f32 b" and "x \<le> b"
  shows "f32 x \<le> b"
proof (cases "x = 0")
  case True
  with assms(2) show ?thesis
    by (simp add: f32_zero)
next
  case False
  note nz = this
  show ?thesis
  proof (cases "b = 0")
    case True
    with assms(2) have "x \<le> of_int 0 * 2 powi (binade x - 23)"
      by simp
    with nz have "f32 x \<le> of_int 0 * 2 powi (binade x - 23)"
      by (rule f32_grid_le)
    with True show ?thesis
      by simp
  next
    case False
    note bnz = this
    show ?thesis
    proof (cases "binade x \<le> binade b")
      case True
      from is_f32_grid [OF assms(1) bnz True] obtain k where b: "b = of_int k * 2 powi (binade x - 23)"
        by blast
      from nz assms(2) show ?thesis
        unfolding b by (rule f32_grid_le)
    next
      case False
      then have "binade b + 1 \<le> binade x"
        by simp
      then have "(2 :: rat) powi (binade b + 1) \<le> 2 powi binade x"
        by (intro power_int_increasing) simp_all
      with binade_bounds(2) [OF bnz] have bl: "\<bar>b\<bar> < 2 powi binade x"
        by linarith
      with binade_bounds(1) [OF nz] assms(2) have "x \<le> - (2 powi binade x)"
        by linarith
      then have "x \<le> of_int (- (2 ^ 23)) * 2 powi (binade x - 23)"
        using two_powi_top [of "binade x"] by simp
      with nz have "f32 x \<le> of_int (- (2 ^ 23)) * 2 powi (binade x - 23)"
        by (rule f32_grid_le)
      then have "f32 x \<le> - (2 powi binade x)"
        using two_powi_top [of "binade x"] by simp
      with bl show ?thesis
        by linarith
    qed
  qed
qed

lemma f32_ge:
  assumes "is_f32 a" and "a \<le> x"
  shows "a \<le> f32 x"
proof (cases "x = 0")
  case True
  with assms(2) show ?thesis
    by (simp add: f32_zero)
next
  case False
  note nz = this
  show ?thesis
  proof (cases "a = 0")
    case True
    with assms(2) have "of_int 0 * 2 powi (binade x - 23) \<le> x"
      by simp
    with nz have "of_int 0 * 2 powi (binade x - 23) \<le> f32 x"
      by (rule f32_grid_ge)
    with True show ?thesis
      by simp
  next
    case False
    note anz = this
    show ?thesis
    proof (cases "binade x \<le> binade a")
      case True
      from is_f32_grid [OF assms(1) anz True] obtain k where a: "a = of_int k * 2 powi (binade x - 23)"
        by blast
      from nz assms(2) show ?thesis
        unfolding a by (rule f32_grid_ge)
    next
      case False
      then have "binade a + 1 \<le> binade x"
        by simp
      then have "(2 :: rat) powi (binade a + 1) \<le> 2 powi binade x"
        by (intro power_int_increasing) simp_all
      with binade_bounds(2) [OF anz] have al: "\<bar>a\<bar> < 2 powi binade x"
        by linarith
      with binade_bounds(1) [OF nz] assms(2) have "2 powi binade x \<le> x"
        by linarith
      then have "of_int (2 ^ 23) * 2 powi (binade x - 23) \<le> x"
        using two_powi_top [of "binade x"] by simp
      with nz have "of_int (2 ^ 23) * 2 powi (binade x - 23) \<le> f32 x"
        by (rule f32_grid_ge)
      then have "2 powi binade x \<le> f32 x"
        using two_powi_top [of "binade x"] by simp
      with al show ?thesis
        by linarith
    qed
  qed
qed

lemma f32_minus_one:
  assumes "is_f32 x" and "1 / 2 \<le> x" and "x < 2 ^ 24"
  shows "f32 (x - 1) = x - 1"
proof -
  from assms(2) have nz: "x \<noteq> 0" and ax: "\<bar>x\<bar> = x"
    by simp_all
  define e where "e = binade x"
  from f32_repr [OF assms(1) nz] obtain m where x: "x = of_int m * 2 powi (e - 23)" and m: "\<bar>m\<bar> < 2 ^ 24"
    unfolding e_def by blast
  have "(2 :: rat) powi (- 1) \<le> x"
    using assms(2) by simp
  from this binade_bounds(2) [OF nz] have "(2 :: rat) powi (- 1) < 2 powi (e + 1)"
    unfolding e_def ax by (rule le_less_trans)
  then have "- 1 < e + 1"
    by (rule two_powi_less_imp)
  then have e_lo: "- 1 \<le> e"
    by simp
  have "x < 2 powi 24"
    using assms(3) by simp
  with binade_bounds(1) [OF nz] have "(2 :: rat) powi e < 2 powi 24"
    unfolding e_def ax by (rule le_less_trans)
  then have e_hi: "e < 24"
    by (rule two_powi_less_imp)
  define j where "j = nat (23 - e)"
  have "(2 :: rat) powi 0 = 2 powi (0 - (e - 23)) * 2 powi (e - 23)"
    by (rule two_powi_split)
  also have "(2 :: rat) powi (0 - (e - 23)) = of_int (2 ^ nat (0 - (e - 23)))"
    using e_hi by (intro two_powi_nat) simp
  finally have one: "(1 :: rat) = of_int (2 ^ j) * 2 powi (e - 23)"
    by (simp add: j_def)
  have "x - 1 = of_int m * 2 powi (e - 23) - of_int (2 ^ j) * 2 powi (e - 23)"
    using x one by simp
  then have d: "x - 1 = of_int (m - 2 ^ j) * 2 powi (e - 23)"
    by (simp add: algebra_simps)
  have "0 < of_int m * (2 :: rat) powi (e - 23)"
    using assms(2) x by simp
  then have mpos: "0 < m"
    by (simp add: zero_less_mult_iff two_powi_not_neg)
  have "j \<le> 24"
    using e_lo by (simp add: j_def)
  then have "(2 :: int) ^ j \<le> 2 ^ 24"
    by (intro power_increasing) simp_all
  moreover have "(0 :: int) < 2 ^ j"
    by simp
  ultimately have "\<bar>m - 2 ^ j\<bar> < 2 ^ 24"
    using m mpos by linarith
  then show ?thesis
    unfolding d by (rule f32_exact)
qed

lemma f32_plus_one:
  assumes "is_f32 x" and "x \<le> - (1 / 2)" and "- (2 ^ 24) < x"
  shows "f32 (x + 1) = x + 1"
proof -
  from assms(2) have nz: "x \<noteq> 0" and ax: "\<bar>x\<bar> = - x"
    by simp_all
  define e where "e = binade x"
  from f32_repr [OF assms(1) nz] obtain m where x: "x = of_int m * 2 powi (e - 23)" and m: "\<bar>m\<bar> < 2 ^ 24"
    unfolding e_def by blast
  have "(2 :: rat) powi (- 1) \<le> - x"
    using assms(2) by simp
  from this binade_bounds(2) [OF nz] have "(2 :: rat) powi (- 1) < 2 powi (e + 1)"
    unfolding e_def ax by (rule le_less_trans)
  then have "- 1 < e + 1"
    by (rule two_powi_less_imp)
  then have e_lo: "- 1 \<le> e"
    by simp
  have "- x < 2 powi 24"
    using assms(3) by simp
  with binade_bounds(1) [OF nz] have "(2 :: rat) powi e < 2 powi 24"
    unfolding e_def ax by (rule le_less_trans)
  then have e_hi: "e < 24"
    by (rule two_powi_less_imp)
  define j where "j = nat (23 - e)"
  have "(2 :: rat) powi 0 = 2 powi (0 - (e - 23)) * 2 powi (e - 23)"
    by (rule two_powi_split)
  also have "(2 :: rat) powi (0 - (e - 23)) = of_int (2 ^ nat (0 - (e - 23)))"
    using e_hi by (intro two_powi_nat) simp
  finally have one: "(1 :: rat) = of_int (2 ^ j) * 2 powi (e - 23)"
    by (simp add: j_def)
  have "x + 1 = of_int m * 2 powi (e - 23) + of_int (2 ^ j) * 2 powi (e - 23)"
    using x one by simp
  then have d: "x + 1 = of_int (m + 2 ^ j) * 2 powi (e - 23)"
    by (simp add: algebra_simps)
  have "of_int m * (2 :: rat) powi (e - 23) < 0"
    using assms(2) x by simp
  then have mneg: "m < 0"
    by (simp add: mult_less_0_iff two_powi_not_neg)
  have "j \<le> 24"
    using e_lo by (simp add: j_def)
  then have "(2 :: int) ^ j \<le> 2 ^ 24"
    by (intro power_increasing) simp_all
  moreover have "(0 :: int) < 2 ^ j"
    by simp
  ultimately have "\<bar>m + 2 ^ j\<bar> < 2 ^ 24"
    using m mneg by linarith
  then show ?thesis
    unfolding d by (rule f32_exact)
qed

lemma round_even_near:
  assumes "\<bar>q - of_int k\<bar> < 1 / 2"
  shows "round_even q = k"
proof -
  have "\<bar>(of_int (round_even q) :: rat) - of_int k\<bar> < 1"
    using round_even_error [of q] assms by linarith
  then have "\<bar>(of_int (round_even q - k) :: rat)\<bar> < of_int 1"
    by simp
  then have "\<bar>round_even q - k\<bar> < 1"
    by (simp only: of_int_abs [symmetric] of_int_less_iff)
  then show ?thesis
    by simp
qed

lemma f32_near:
  assumes "2 powi e \<le> \<bar>x\<bar>" and "\<bar>x\<bar> < 2 powi (e + 1)"
    and "\<bar>x / 2 powi (e - 23) - of_int k\<bar> < 1 / 2"
  shows "f32 x = of_int k * 2 powi (e - 23)"
  using f32_eqI [OF assms(1,2)] round_even_near [OF assms(3)] by simp

lemma round_even_tie:
  assumes "q = of_int k + 1 / 2"
  shows "round_even q = (if even k then k else k + 1)"
proof -
  have "\<lfloor>q\<rfloor> = k"
    unfolding assms by (rule floor_unique) simp_all
  then show ?thesis
    by (simp add: round_even_def Let_def assms)
qed

lemma f32_tie:
  assumes "2 powi e \<le> \<bar>x\<bar>" and "\<bar>x\<bar> < 2 powi (e + 1)"
    and "x / 2 powi (e - 23) = of_int k + 1 / 2"
  shows "f32 x = of_int (if even k then k else k + 1) * 2 powi (e - 23)"
  using f32_eqI [OF assms(1,2)] round_even_tie [OF assms(3)] by simp

lemma f32_error_16: "\<bar>x\<bar> \<le> 16 \<Longrightarrow> \<bar>f32 x - x\<bar> \<le> 1 / 2097152"
  using f32_error [of x 4] by simp

lemma f32_error_8: "\<bar>x\<bar> \<le> 8 \<Longrightarrow> \<bar>f32 x - x\<bar> \<le> 1 / 4194304"
  using f32_error [of x 3] by simp

subsection \<open>Values that need no rounding\<close>

lemma f32_one: "f32 1 = 1"
  using f32_exact [of 1 0] by simp

lemma f32_numeral: "(numeral k :: int) < 2 ^ 24 \<Longrightarrow> f32 (numeral k) = numeral k"
  using f32_exact [of "numeral k" 0] by simp

lemma f32_neg_numeral: "(numeral k :: int) < 2 ^ 24 \<Longrightarrow> f32 (- numeral k) = - numeral k"
  using f32_exact [of "- numeral k" 0] by simp

lemma f32_half: "f32 (1 / 2) = 1 / 2"
  using f32_exact [of 1 "- 1"] by simp

lemma f32_neg_half: "f32 (- (1 / 2)) = - (1 / 2)"
  using f32_exact [of "- 1" "- 1"] by simp

lemma f32_neg_one: "f32 (- 1) = - 1"
  using f32_exact [of "- 1" 0] by simp

section \<open>The pending step counter\<close>

text \<open>
  A call of \<open>touchWheelGetAndClearDelta\<close> that nothing interrupts returns the counter and
  leaves it at zero, so a second call right after it returns \<open>0\<close>.
\<close>

lemma touchWheelGetAndClearDelta_uninterrupted:
  "touchWheelGetAndClearDelta w = (s_accumDelta w, w\<lparr>s_accumDelta := 0\<rparr>)"
  "fst (touchWheelGetAndClearDelta (snd (touchWheelGetAndClearDelta w))) = 0"
  by (simp_all add: touchWheelGetAndClearDelta_def drain_read_def drain_clear_def)

text \<open>
  C8 does not hold of the code: the sum of the drained values can fall short of the
  steps accumulated, because the read and the clear are two statements and the task
  can run between them. The run starts from the initial statics. Two frames with a
  touched bit at position \<open>0\<close> activate the wheel; a third at position \<open>3\<close> emits
  three steps, and the counter is \<open>3\<close>. The consumer reads the counter into \<open>d\<close>; before
  it clears the counter, the task runs one iteration at position \<open>4\<close>, which emits one
  more step (counter \<open>4\<close>); the clear then sets the counter to \<open>0\<close> and the call returns
  \<open>3\<close>. The next call returns \<open>0\<close>. The iterations emitted
  \<open>0 + 0 + 3 + 1 = 4\<close> steps, the calls returned \<open>3 + 0 = 3\<close>: the step emitted between
  the read and the clear is lost.
\<close>

theorem drain_loses_step_between_read_and_clear:
  "run_events
     [Poll 1 0 0, Poll 1 0 0, Poll 1 0 3, DrainRead, Poll 1 0 4, DrainClear, DrainRead, DrainClear]
     wheel_start 0
   = Some (\<lparr>s_accumDelta = 0, s_orderCount = 12, s_invert = False, s_fracMove = 0,
            s_isActive = True, s_activeFrames = 4, s_quietFrames = 0, lastPos = 4\<rparr>,
           [0, 0, 3, 1], [3, 0])"
  by (simp add: wheel_start_def touchTask_iteration_def step_accumulator_def activity_gate_def
      proposedActive_def wrapped_diff_def drain_read_def drain_clear_def Let_def
      f32_zero f32_one f32_numeral
      emit_up.simps [of 3] emit_up.simps [of 2] emit_up.simps [of 1] emit_up.simps [of 0]
      emit_down.simps [of 0])

section \<open>The activity gate\<close>

lemma activity_gate_qualifying:
  assumes "proposedActive t m"
  shows "s_activeFrames (activity_gate t m w) = s_activeFrames w + 1"
    and "s_quietFrames (activity_gate t m w) = 0"
    and "s_isActive (activity_gate t m w) \<longleftrightarrow> s_isActive w \<or> sint (s_activeFrames w + 1) \<ge> 2"
  using assms by (auto simp: activity_gate_def Let_def)

lemma activity_gate_quiet:
  assumes "\<not> proposedActive t m"
  shows "s_activeFrames (activity_gate t m w) = 0"
    and "s_quietFrames (activity_gate t m w) = s_quietFrames w + 1"
    and "s_isActive (activity_gate t m w) \<longleftrightarrow> s_isActive w \<and> \<not> sint (s_quietFrames w + 1) \<ge> 3"
  using assms by (auto simp: activity_gate_def Let_def)

lemma gate_run_snoc:
  "gate_run (fs @ [f]) w = activity_gate (fst f) (snd f) (gate_run fs w)"
  by (simp add: gate_run_def case_prod_beta)

lemma gate_run_Nil: "gate_run [] w = w"
  by (simp add: gate_run_def)

lemma gate_streaks_ok_step:
  assumes "gate_streaks_ok w"
  shows "gate_streaks_ok (activity_gate t m w)"
proof (cases "proposedActive t m")
  case True
  from assms show ?thesis
    unfolding gate_streaks_ok_def activity_gate_qualifying [OF True]
    by (auto split: if_splits)
next
  case False
  from assms show ?thesis
    unfolding gate_streaks_ok_def activity_gate_quiet [OF False]
    by (auto split: if_splits)
qed

lemma gate_streaks_ok_run:
  assumes "gate_idle w0"
  shows "gate_streaks_ok (gate_run fs w0)"
proof (induction fs rule: rev_induct)
  case Nil
  from assms show ?case
    by (simp add: gate_run_Nil gate_idle_def gate_streaks_ok_def)
next
  case (snoc f fs)
  then show ?case
    by (simp add: gate_run_snoc gate_streaks_ok_step)
qed

lemma active_streak_last:
  assumes "gate_idle w0" and "s_activeFrames (gate_run fs w0) \<noteq> 0"
  shows "fs \<noteq> [] \<and> qualifies (last fs)"
proof (cases fs rule: rev_cases)
  case Nil
  with assms show ?thesis
    by (simp add: gate_run_Nil gate_idle_def)
next
  case (snoc fs' f)
  with assms(2) have "proposedActive (fst f) (snd f)"
    using activity_gate_quiet(1) [of "fst f" "snd f" "gate_run fs' w0"]
    by (auto simp: gate_run_snoc)
  with snoc show ?thesis
    by (simp add: qualifies_def)
qed

lemma three_quiet_frames:
  assumes "gate_streaks_ok w" and "\<not> qualifies a" and "\<not> qualifies b" and "\<not> qualifies c"
  shows "\<not> s_isActive (activity_gate (fst c) (snd c) (activity_gate (fst b) (snd b) (activity_gate (fst a) (snd a) w)))"
proof -
  from assms(2-4) have q: "\<not> proposedActive (fst a) (snd a)" "\<not> proposedActive (fst b) (snd b)"
      "\<not> proposedActive (fst c) (snd c)"
    by (simp_all add: qualifies_def)
  from assms(1) show ?thesis
    unfolding activity_gate_quiet [OF q(3)] activity_gate_quiet [OF q(2)] activity_gate_quiet [OF q(1)]
      gate_streaks_ok_def
    by (auto split: if_splits)
qed

lemma two_qualifying_frames:
  assumes "gate_streaks_ok w" and "qualifies a" and "qualifies b"
  shows "s_isActive (activity_gate (fst b) (snd b) (activity_gate (fst a) (snd a) w))"
proof -
  from assms(2,3) have q: "proposedActive (fst a) (snd a)" "proposedActive (fst b) (snd b)"
    by (simp_all add: qualifies_def)
  from assms(1) show ?thesis
    unfolding activity_gate_qualifying [OF q(2)] activity_gate_qualifying [OF q(1)] gate_streaks_ok_def
    by (auto split: if_splits)
qed

text \<open>
  C3. Start the gate idle (inactive, both streaks zero), as the statics are initialised,
  and run it over any frames \<open>fs\<close>; a frame qualifies when a touched bit is set or
  \<open>maxStrength\<close> is at least 10. Then: the gate turns active only on a qualifying frame
  that directly follows a qualifying frame; one qualifying frame from the start does not
  activate; two qualifying frames in a row, after any frames, leave the gate active;
  three non-qualifying frames in a row, after any frames, leave it inactive; and an
  active gate that has just seen a qualifying frame is still active after two
  non-qualifying frames.
\<close>

theorem activity_gate_debounce:
  assumes "gate_idle w0"
  shows "(\<not> s_isActive (gate_run fs w0) \<and> s_isActive (gate_run (fs @ [f]) w0) \<longrightarrow>
            qualifies f \<and> fs \<noteq> [] \<and> qualifies (last fs)) \<and>
         (qualifies a \<longrightarrow> \<not> s_isActive (gate_run [a] w0)) \<and>
         (qualifies a \<and> qualifies b \<longrightarrow> s_isActive (gate_run (fs @ [a, b]) w0)) \<and>
         (\<not> qualifies a \<and> \<not> qualifies b \<and> \<not> qualifies c \<longrightarrow>
            \<not> s_isActive (gate_run (fs @ [a, b, c]) w0)) \<and>
         (s_isActive (gate_run (fs @ [f]) w0) \<and> qualifies f \<and> \<not> qualifies a \<and> \<not> qualifies b \<longrightarrow>
            s_isActive (gate_run (fs @ [f, a, b]) w0))"
proof (intro conjI impI)
  assume flip: "\<not> s_isActive (gate_run fs w0) \<and> s_isActive (gate_run (fs @ [f]) w0)"
  let ?w = "gate_run fs w0"
  have qf: "proposedActive (fst f) (snd f)"
  proof (rule ccontr)
    assume "\<not> proposedActive (fst f) (snd f)"
    from activity_gate_quiet(3) [OF this, of ?w] flip show False
      by (simp add: gate_run_snoc)
  qed
  from activity_gate_qualifying(3) [OF qf, of ?w] flip
  have "sint (s_activeFrames ?w + 1) \<ge> 2"
    by (simp add: gate_run_snoc)
  then have "s_activeFrames ?w \<noteq> 0"
    by auto
  from active_streak_last [OF assms this] qf
  show "qualifies f" and "fs \<noteq> []" and "qualifies (last fs)"
    by (simp_all add: qualifies_def)
next
  assume "qualifies a"
  then have "proposedActive (fst a) (snd a)"
    by (simp add: qualifies_def)
  from activity_gate_qualifying(3) [OF this, of w0] assms
  show "\<not> s_isActive (gate_run [a] w0)"
    using gate_run_snoc [of "[]" a w0] by (simp add: gate_run_Nil gate_idle_def)
next
  assume "qualifies a \<and> qualifies b"
  with two_qualifying_frames [OF gate_streaks_ok_run [OF assms, of fs], of a b]
  show "s_isActive (gate_run (fs @ [a, b]) w0)"
    using gate_run_snoc [of "fs @ [a]" b w0] gate_run_snoc [of fs a w0] by simp
next
  assume "\<not> qualifies a \<and> \<not> qualifies b \<and> \<not> qualifies c"
  with three_quiet_frames [OF gate_streaks_ok_run [OF assms, of fs], of a b c]
  show "\<not> s_isActive (gate_run (fs @ [a, b, c]) w0)"
    using gate_run_snoc [of "fs @ [a, b]" c w0] gate_run_snoc [of "fs @ [a]" b w0] gate_run_snoc [of fs a w0]
    by simp
next
  assume h: "s_isActive (gate_run (fs @ [f]) w0) \<and> qualifies f \<and> \<not> qualifies a \<and> \<not> qualifies b"
  let ?w = "gate_run (fs @ [f]) w0"
  from h have q: "proposedActive (fst f) (snd f)" "\<not> proposedActive (fst a) (snd a)"
      "\<not> proposedActive (fst b) (snd b)"
    by (simp_all add: qualifies_def)
  have zero: "s_quietFrames ?w = 0"
    by (simp add: gate_run_snoc activity_gate_qualifying(2) [OF q(1)])
  have "s_isActive (activity_gate (fst b) (snd b) (activity_gate (fst a) (snd a) ?w))"
    unfolding activity_gate_quiet [OF q(3)] activity_gate_quiet [OF q(2)] zero
    using h by simp
  then show "s_isActive (gate_run (fs @ [f, a, b]) w0)"
    using gate_run_snoc [of "fs @ [f, a]" b w0] gate_run_snoc [of "fs @ [f]" a w0] by simp
qed

text \<open>
  The theorem on a touch: a frame with touched bit 0, then one with \<open>maxStrength = 10\<close>
  and no touched bit, then frames with \<open>maxStrength = 9\<close> and no touched bit. The gate is
  inactive after the first frame, active after the second, still active after two quiet
  frames and inactive after the third.
\<close>

theorem activity_gate_debounce_witness:
  "gate_idle \<lparr>s_accumDelta = 0, s_orderCount = 12, s_invert = False, s_fracMove = 0, s_isActive = False,
              s_activeFrames = 0, s_quietFrames = 0, lastPos = - 1\<rparr> \<and>
   qualifies (1, 0) \<and> qualifies (0, 10) \<and> \<not> qualifies (0, 9) \<and>
   \<not> s_isActive (gate_run [(1, 0)]
      \<lparr>s_accumDelta = 0, s_orderCount = 12, s_invert = False, s_fracMove = 0, s_isActive = False,
       s_activeFrames = 0, s_quietFrames = 0, lastPos = - 1\<rparr>) \<and>
   s_isActive (gate_run [(1, 0), (0, 10)]
      \<lparr>s_accumDelta = 0, s_orderCount = 12, s_invert = False, s_fracMove = 0, s_isActive = False,
       s_activeFrames = 0, s_quietFrames = 0, lastPos = - 1\<rparr>) \<and>
   s_isActive (gate_run [(1, 0), (0, 10), (0, 9), (0, 9)]
      \<lparr>s_accumDelta = 0, s_orderCount = 12, s_invert = False, s_fracMove = 0, s_isActive = False,
       s_activeFrames = 0, s_quietFrames = 0, lastPos = - 1\<rparr>) \<and>
   \<not> s_isActive (gate_run [(1, 0), (0, 10), (0, 9), (0, 9), (0, 9)]
      \<lparr>s_accumDelta = 0, s_orderCount = 12, s_invert = False, s_fracMove = 0, s_isActive = False,
       s_activeFrames = 0, s_quietFrames = 0, lastPos = - 1\<rparr>)"
proof -
  let ?w = "\<lparr>s_accumDelta = 0, s_orderCount = 12, s_invert = False, s_fracMove = 0, s_isActive = False,
              s_activeFrames = 0, s_quietFrames = 0, lastPos = - 1\<rparr>"
  let ?T = "(1 :: 16 word, 0 :: int)" and ?S = "(0 :: 16 word, 10 :: int)" and ?Q = "(0 :: 16 word, 9 :: int)"
  have idle: "gate_idle ?w"
    by (simp add: gate_idle_def)
  note main = activity_gate_debounce [OF idle]
  have qT: "qualifies ?T" and qS: "qualifies ?S" and qQ: "\<not> qualifies ?Q"
    by (simp_all add: qualifies_def proposedActive_def)
  from main [where a = ?T, THEN conjunct2, THEN conjunct1] qT
  have one: "\<not> s_isActive (gate_run [?T] ?w)"
    by simp
  from main [where fs = "[]" and a = ?T and b = ?S, THEN conjunct2, THEN conjunct2, THEN conjunct1] qT qS
  have two: "s_isActive (gate_run [?T, ?S] ?w)"
    by simp
  from main [where fs = "[?T]" and f = ?S and a = ?Q and b = ?Q,
      THEN conjunct2, THEN conjunct2, THEN conjunct2, THEN conjunct2] two qS qQ
  have hold: "s_isActive (gate_run [?T, ?S, ?Q, ?Q] ?w)"
    by simp
  from main [where fs = "[?T, ?S]" and a = ?Q and b = ?Q and c = ?Q,
      THEN conjunct2, THEN conjunct2, THEN conjunct2, THEN conjunct1] qQ
  have off: "\<not> s_isActive (gate_run [?T, ?S, ?Q, ?Q, ?Q] ?w)"
    by simp
  from main [where fs = "[?T]" and f = ?S, THEN conjunct1] one two
  have "qualifies ?S \<and> [?T] \<noteq> [] \<and> qualifies (last [?T])"
    by simp
  with idle qT qS qQ one two hold off show ?thesis
    by simp
qed

section \<open>Disabled electrodes and the position estimate\<close>

text \<open>
  C5, as the code has it. The two loops of \<open>touchTask\<close> read the controller for every
  slot of \<open>s_order\<close> and never the calibration module's \<open>electrode_enabled\<close>: on every
  frame the estimator's \<open>sumX\<close>, \<open>sumY\<close>, \<open>totalMag\<close> and \<open>maxStrength\<close> are those of
  the specification's estimator with every electrode enabled. They agree with the
  specification's estimator for given flags whenever each disabled electrode of the order
  has zero strength of its own in both loops (baseline minus filtered below 0.5, and 32
  minus filtered at most 1); a disabled electrode with a signal is counted like an
  enabled one.
\<close>

theorem estimator_ignores_enabled_flags:
  "estimator_sums vadd zero order n f = spec_estimator_sums (\<lambda>e. True) vadd zero order n f \<and>
   ((\<forall>i < n. \<not> enabled (order ! i) \<longrightarrow>
        baseline_strength f (order ! i) \<le> 0 \<and> fallback_strength f (order ! i) \<le> 1) \<longrightarrow>
    estimator_sums vadd zero order n f = spec_estimator_sums enabled vadd zero order n f)"
proof (intro conjI impI)
  have gen: "estimator_sums vadd zero order n f = spec_estimator_sums en vadd zero order n f"
    if quiet: "\<forall>i < n. \<not> en (order ! i) \<longrightarrow>
        baseline_strength f (order ! i) \<le> 0 \<and> fallback_strength f (order ! i) \<le> 1" for en
  proof -
    have b: "fold (spec_baseline_pass en vadd order n f) [0..<n] acc = fold (baseline_pass vadd order n f) [0..<n] acc"
      for acc
    proof (rule fold_cong)
      fix i assume "i \<in> set [0..<n]"
      with quiet have "\<not> en (order ! i) \<Longrightarrow> baseline_strength f (order ! i) \<le> 0"
        by simp
      then show "spec_baseline_pass en vadd order n f i = baseline_pass vadd order n f i"
        by (auto simp: spec_baseline_pass_def baseline_pass_def Let_def fun_eq_iff)
    qed simp_all
    have fb: "fold (spec_fallback_pass en vadd order n f) [0..<n] acc = fold (fallback_pass vadd order n f) [0..<n] acc"
      for acc
    proof (rule fold_cong)
      fix i assume "i \<in> set [0..<n]"
      with quiet have "\<not> en (order ! i) \<Longrightarrow> fallback_strength f (order ! i) \<le> 1"
        by simp
      then show "spec_fallback_pass en vadd order n f i = fallback_pass vadd order n f i"
        by (auto simp: spec_fallback_pass_def fallback_pass_def Let_def fun_eq_iff)
    qed simp_all
    show ?thesis
      by (simp add: estimator_sums_def spec_estimator_sums_def Let_def b fb)
  qed
  show "estimator_sums vadd zero order n f = spec_estimator_sums (\<lambda>e. True) vadd zero order n f"
    by (rule gen) simp
  assume "\<forall>i < n. \<not> enabled (order ! i) \<longrightarrow>
        baseline_strength f (order ! i) \<le> 0 \<and> fallback_strength f (order ! i) \<le> 1"
  then show "estimator_sums vadd zero order n f = spec_estimator_sums enabled vadd zero order n f"
    by (rule gen)
qed

text \<open>
  The theorem with electrode 0 disabled and quiet, and electrode 3 pressed: both
  estimators add strength 40 for slot 3 and nothing else.
\<close>

theorem estimator_ignores_enabled_flags_witness:
  "estimator_sums (\<lambda>i n strength v. v @ [(i, strength)]) [] [0, 1, 2, 3, 4, 5, 6, 7, 8, 9, 10, 11] 12
     \<lparr>curTouched = 8, filteredData = (\<lambda>e. if e = 3 then 60 else 100), baselineData = (\<lambda>e. 100)\<rparr> =
   spec_estimator_sums (\<lambda>e. (False # replicate 11 True) ! unat e)
     (\<lambda>i n strength v. v @ [(i, strength)]) [] [0, 1, 2, 3, 4, 5, 6, 7, 8, 9, 10, 11] 12
     \<lparr>curTouched = 8, filteredData = (\<lambda>e. if e = 3 then 60 else 100), baselineData = (\<lambda>e. 100)\<rparr> \<and>
   estimator_sums (\<lambda>i n strength v. v @ [(i, strength)]) [] [0, 1, 2, 3, 4, 5, 6, 7, 8, 9, 10, 11] 12
     \<lparr>curTouched = 8, filteredData = (\<lambda>e. if e = 3 then 60 else 100), baselineData = (\<lambda>e. 100)\<rparr> =
     \<lparr>sumXY = [(3, 40)], totalMag = 40, maxStrength = 40\<rparr>"
proof -
  let ?f = "\<lparr>curTouched = 8, filteredData = (\<lambda>e. if e = 3 then 60 else 100), baselineData = (\<lambda>e. 100)\<rparr>"
  let ?order = "[0, 1, 2, 3, 4, 5, 6, 7, 8, 9, 10, 11] :: 8 word list"
  let ?en = "\<lambda>e :: 8 word. (False # replicate 11 True) ! unat e"
  have quiet: "\<forall>i < 12. \<not> ?en (?order ! i) \<longrightarrow>
      baseline_strength ?f (?order ! i) \<le> 0 \<and> fallback_strength ?f (?order ! i) \<le> 1"
    by (simp add: baseline_strength_def fallback_strength_def)
  have val: "estimator_sums (\<lambda>i n strength v. v @ [(i, strength)]) [] ?order 12 ?f =
      \<lparr>sumXY = [(3, 40)], totalMag = 40, maxStrength = 40\<rparr>"
    by (simp add: estimator_sums_def upt12 baseline_pass_def baseline_strength_def add_strength_def)
  from estimator_ignores_enabled_flags
         [where vadd = "\<lambda>i n strength v. v @ [(i, strength)]" and zero = "[] :: (nat \<times> int) list",
          THEN conjunct2, THEN mp, OF quiet]
       val
  show ?thesis
    by simp
qed

text \<open>
  C5 as stated fails in both loops. Electrode 0 is disabled through
  \<open>touch_calibration_enable_electrode\<close>. On a frame where it reads baseline 100 and
  filtered 50, the estimator adds its strength 50 to all four accumulators, where the
  specification's estimator, skipping it, has no signal at all. On a frame where no
  electrode reads below its baseline and electrode 0 reads filtered 20, the fallback loop
  adds its strength 12, where the specification's estimator again has none. The pair \<open>(sumX, sumY)\<close> is shown as the list of the
  \<open>(slot, strength)\<close> terms added to it.
\<close>

theorem estimator_counts_disabled_electrode_counterexample:
  "touch_calibration_enable_electrode
     \<lparr>baseline = replicate 12 100, filtered_data = replicate 12 100, touch_delta = replicate 12 0,
      electrode_enabled = replicate 12 True, last_calibration_time = 0, calibration_needed = False\<rparr> 0 False =
     Some \<lparr>baseline = replicate 12 100, filtered_data = replicate 12 100, touch_delta = replicate 12 0,
           electrode_enabled = False # replicate 11 True, last_calibration_time = 0, calibration_needed = False\<rparr> \<and>
   estimator_sums (\<lambda>i n strength v. v @ [(i, strength)]) [] [0, 1, 2, 3, 4, 5, 6, 7, 8, 9, 10, 11] 12
     \<lparr>curTouched = 1, filteredData = (\<lambda>e. if e = 0 then 50 else 100), baselineData = (\<lambda>e. 100)\<rparr> =
     \<lparr>sumXY = [(0, 50)], totalMag = 50, maxStrength = 50\<rparr> \<and>
   spec_estimator_sums (\<lambda>e. (False # replicate 11 True) ! unat e)
     (\<lambda>i n strength v. v @ [(i, strength)]) [] [0, 1, 2, 3, 4, 5, 6, 7, 8, 9, 10, 11] 12
     \<lparr>curTouched = 1, filteredData = (\<lambda>e. if e = 0 then 50 else 100), baselineData = (\<lambda>e. 100)\<rparr> =
     \<lparr>sumXY = [], totalMag = 0, maxStrength = 0\<rparr> \<and>
   estimator_sums (\<lambda>i n strength v. v @ [(i, strength)]) [] [0, 1, 2, 3, 4, 5, 6, 7, 8, 9, 10, 11] 12
     \<lparr>curTouched = 0, filteredData = (\<lambda>e. if e = 0 then 20 else 100),
      baselineData = (\<lambda>e. if e = 0 then 20 else 100)\<rparr> =
     \<lparr>sumXY = [(0, 12)], totalMag = 12, maxStrength = 12\<rparr> \<and>
   spec_estimator_sums (\<lambda>e. (False # replicate 11 True) ! unat e)
     (\<lambda>i n strength v. v @ [(i, strength)]) [] [0, 1, 2, 3, 4, 5, 6, 7, 8, 9, 10, 11] 12
     \<lparr>curTouched = 0, filteredData = (\<lambda>e. if e = 0 then 20 else 100),
      baselineData = (\<lambda>e. if e = 0 then 20 else 100)\<rparr> =
     \<lparr>sumXY = [], totalMag = 0, maxStrength = 0\<rparr>"
proof (intro conjI)
  show "touch_calibration_enable_electrode
     \<lparr>baseline = replicate 12 100, filtered_data = replicate 12 100, touch_delta = replicate 12 0,
      electrode_enabled = replicate 12 True, last_calibration_time = 0, calibration_needed = False\<rparr> 0 False =
     Some \<lparr>baseline = replicate 12 100, filtered_data = replicate 12 100, touch_delta = replicate 12 0,
           electrode_enabled = False # replicate 11 True, last_calibration_time = 0, calibration_needed = False\<rparr>"
    by (simp add: touch_calibration_enable_electrode_def TOUCH_ELECTRODE_COUNT_def array_write_def
        eval_nat_numeral)
  show "estimator_sums (\<lambda>i n strength v. v @ [(i, strength)]) [] [0, 1, 2, 3, 4, 5, 6, 7, 8, 9, 10, 11] 12
     \<lparr>curTouched = 1, filteredData = (\<lambda>e. if e = 0 then 50 else 100), baselineData = (\<lambda>e. 100)\<rparr> =
     \<lparr>sumXY = [(0, 50)], totalMag = 50, maxStrength = 50\<rparr>"
    by (simp add: estimator_sums_def upt12 baseline_pass_def baseline_strength_def add_strength_def)
  show "spec_estimator_sums (\<lambda>e. (False # replicate 11 True) ! unat e)
     (\<lambda>i n strength v. v @ [(i, strength)]) [] [0, 1, 2, 3, 4, 5, 6, 7, 8, 9, 10, 11] 12
     \<lparr>curTouched = 1, filteredData = (\<lambda>e. if e = 0 then 50 else 100), baselineData = (\<lambda>e. 100)\<rparr> =
     \<lparr>sumXY = [], totalMag = 0, maxStrength = 0\<rparr>"
    by (simp add: spec_estimator_sums_def upt12 spec_baseline_pass_def spec_fallback_pass_def
        baseline_pass_def baseline_strength_def fallback_pass_def fallback_strength_def add_strength_def)
  show "estimator_sums (\<lambda>i n strength v. v @ [(i, strength)]) [] [0, 1, 2, 3, 4, 5, 6, 7, 8, 9, 10, 11] 12
     \<lparr>curTouched = 0, filteredData = (\<lambda>e. if e = 0 then 20 else 100),
      baselineData = (\<lambda>e. if e = 0 then 20 else 100)\<rparr> =
     \<lparr>sumXY = [(0, 12)], totalMag = 12, maxStrength = 12\<rparr>"
    by (simp add: estimator_sums_def upt12 baseline_pass_def baseline_strength_def
        fallback_pass_def fallback_strength_def add_strength_def)
  show "spec_estimator_sums (\<lambda>e. (False # replicate 11 True) ! unat e)
     (\<lambda>i n strength v. v @ [(i, strength)]) [] [0, 1, 2, 3, 4, 5, 6, 7, 8, 9, 10, 11] 12
     \<lparr>curTouched = 0, filteredData = (\<lambda>e. if e = 0 then 20 else 100),
      baselineData = (\<lambda>e. if e = 0 then 20 else 100)\<rparr> =
     \<lparr>sumXY = [], totalMag = 0, maxStrength = 0\<rparr>"
    by (simp add: spec_estimator_sums_def upt12 spec_baseline_pass_def spec_fallback_pass_def
        baseline_pass_def baseline_strength_def fallback_pass_def fallback_strength_def add_strength_def)
qed

section \<open>The range of the position\<close>

text \<open>
  The angle of slot \<open>0\<close> of twelve is \<open>0\<close> and that of slot \<open>6\<close> is \<open>(float)M_PI\<close>
  exactly; a full turn \<open>2.0f * (float)M_PI\<close> maps to the position \<open>12\<close>; and a
  negative angle of less than \<open>2 powi (- 22)\<close>, half a unit of the binade of the full
  turn, is moved up to the full turn itself.
\<close>

lemma slot_angle_0: "slot_angle 0 12 = 0"
  by (simp add: slot_angle_def f32_zero)

lemma slot_angle_6: "slot_angle 6 12 = PI_F"
proof -
  have a: "f32 (2 * PI_F * of_nat 6) = 9882596 / 262144"
    using f32_near [of 5 "2 * PI_F * of_nat 6" 9882596] by (simp add: PI_F_def)
  have b: "f32 ((9882596 / 262144) / of_nat 12) = PI_F"
    using f32_near [of 1 "(9882596 / 262144) / of_nat 12" 13176795] by (simp add: PI_F_def)
  show ?thesis
    unfolding slot_angle_def a b ..
qed

lemma position_of_full_turn: "f32 (f32 (2 * PI_F * of_nat 12) / (2 * PI_F)) = 12"
proof -
  have a: "f32 (2 * PI_F * of_nat 12) = 9882596 / 131072"
    using f32_near [of 6 "2 * PI_F * of_nat 12" 9882596] by (simp add: PI_F_def)
  have b: "f32 ((9882596 / 131072) / (2 * PI_F)) = 12"
    using f32_near [of 3 "(9882596 / 131072) / (2 * PI_F)" 12582912] by (simp add: PI_F_def)
  show ?thesis
    unfolding a b ..
qed

lemma round_up_to_full_turn:
  assumes "- (1 / 4194304) < a" and "a < 0"
  shows "f32 (a + 2 * PI_F) = 2 * PI_F"
proof -
  have "f32 (a + 2 * PI_F) = of_int 13176795 * 2 powi (2 - 23)"
  proof (rule f32_near)
    show "2 powi 2 \<le> \<bar>a + 2 * PI_F\<bar>"
      using assms by (simp add: PI_F_def)
    show "\<bar>a + 2 * PI_F\<bar> < 2 powi (2 + 1)"
      using assms by (simp add: PI_F_def)
    show "\<bar>(a + 2 * PI_F) / 2 powi (2 - 23) - of_int 13176795\<bar> < 1 / 2"
      using assms by (simp add: PI_F_def)
  qed
  then show ?thesis
    by (simp add: PI_F_def)
qed

text \<open>
  C1 does not hold of the code: the position can be \<open>s_orderCount\<close> itself, outside
  \<open>[0, N)\<close>. The frame has baseline \<open>200\<close> on every electrode and filtered \<open>197\<close> on
  electrode \<open>0\<close>, \<open>199\<close> on electrode \<open>6\<close> and \<open>200\<close> elsewhere: strength \<open>3\<close> on
  slot \<open>0\<close>, \<open>1\<close> on the opposite slot \<open>6\<close> and none elsewhere, with the order and the
  count of twelve that the source initialises. Of the C library it is assumed that
  \<open>cosf(0) = 1\<close>, \<open>sinf(0) = 0\<close> and \<open>cosf((float)M_PI) = -1\<close>, that
  \<open>sinf((float)M_PI)\<close> is a binary32 value \<open>s\<close>, and that \<open>atan2f(s, 2)\<close> is negative and
  above \<open>-1 / 2 ^ 22\<close> (correctly rounded, \<open>s\<close> is about \<open>-8.74e-8\<close> and the angle about
  \<open>-4.37e-8\<close>). Then \<open>sumX = 2\<close>, \<open>sumY = s\<close>, \<open>totalMag = 4\<close>; the angle is negative,
  \<open>angle += 2.0f * (float)M_PI\<close> rounds to the full turn, and the position is exactly
  \<open>12\<close>. Every product of this frame is a binary32 value, so fusing products and sums
  changes nothing.
\<close>

theorem estimator_position_reaches_slot_count:
  assumes "cosf lm 0 = 1" and "sinf lm 0 = 0" and "cosf lm PI_F = - 1"
    and "is_f32 (sinf lm PI_F)"
    and "- (1 / 4194304) < atan2f lm (sinf lm PI_F) 2" and "atan2f lm (sinf lm PI_F) 2 < 0"
  shows "active_position lm 12
           (estimator_sums (vadd_f32 lm) (0, 0) [0, 1, 2, 3, 4, 5, 6, 7, 8, 9, 10, 11] 12
              \<lparr>curTouched = 0,
               filteredData = (\<lambda>e. if e = 0 then 197 else if e = 6 then 199 else 200),
               baselineData = (\<lambda>e. 200)\<rparr>) = 12"
proof -
  define f where "f = \<lparr>curTouched = 0,
      filteredData = (\<lambda>e :: 8 word. if e = 0 then 197 else if e = 6 then 199 else (200 :: 16 word)),
      baselineData = (\<lambda>e :: 8 word. (200 :: 16 word))\<rparr>"
  define order :: "8 word list" where "order = [0, 1, 2, 3, 4, 5, 6, 7, 8, 9, 10, 11]"
  have s: "f32 (sinf lm PI_F) = sinf lm PI_F"
    using assms(4) by (simp add: is_f32_def)
  have sums: "estimator_sums (vadd_f32 lm) (0, 0) order 12 f
      = \<lparr>sumXY = (2, sinf lm PI_F), totalMag = 4, maxStrength = 3\<rparr>"
    by (simp add: estimator_sums_def upt12 baseline_pass_def baseline_strength_def
        add_strength_def vadd_f32_def slot_angle_0 slot_angle_6 assms(1,2,3) s
        f32_zero f32_one f32_numeral f32_neg_one f_def order_def Let_def)
  have "active_position lm 12 (estimator_sums (vadd_f32 lm) (0, 0) order 12 f)
      = f32 (f32 (2 * PI_F * of_nat 12) / (2 * PI_F))"
    unfolding sums
    using assms(6) round_up_to_full_turn [OF assms(5,6)]
    by (simp add: active_position_def Let_def)
  then show ?thesis
    unfolding position_of_full_turn f_def order_def .
qed

text \<open>
  The theorem for a C library that has, at the arguments the frame leads to, the
  correctly rounded values: \<open>cosf(0) = 1\<close>, \<open>sinf(0) = 0\<close>, \<open>cosf((float)M_PI) = -1\<close>,
  \<open>sinf((float)M_PI) = -6151831 / 2 ^ 46\<close> and \<open>atan2f\<close> of that and \<open>2\<close> equal to
  \<open>-6151831 / 2 ^ 47\<close>.
\<close>

theorem estimator_position_reaches_slot_count_witness:
  "cosf \<lparr>cosf = (\<lambda>x. if x = 0 then 1 else - 1),
         sinf = (\<lambda>x. if x = 0 then 0 else - (6151831 / 70368744177664)),
         atan2f = (\<lambda>y x. - (6151831 / 140737488355328))\<rparr> PI_F = - 1
   \<and> is_f32 (- (6151831 / 70368744177664))
   \<and> active_position
       \<lparr>cosf = (\<lambda>x. if x = 0 then 1 else - 1),
        sinf = (\<lambda>x. if x = 0 then 0 else - (6151831 / 70368744177664)),
        atan2f = (\<lambda>y x. - (6151831 / 140737488355328))\<rparr> 12
       (estimator_sums
          (vadd_f32
             \<lparr>cosf = (\<lambda>x. if x = 0 then 1 else - 1),
              sinf = (\<lambda>x. if x = 0 then 0 else - (6151831 / 70368744177664)),
              atan2f = (\<lambda>y x. - (6151831 / 140737488355328))\<rparr>)
          (0, 0) [0, 1, 2, 3, 4, 5, 6, 7, 8, 9, 10, 11] 12
          \<lparr>curTouched = 0,
           filteredData = (\<lambda>e. if e = 0 then 197 else if e = 6 then 199 else 200),
           baselineData = (\<lambda>e. 200)\<rparr>) = 12"
proof -
  define lm where "lm = \<lparr>cosf = (\<lambda>x :: rat. if x = 0 then 1 else - 1 :: rat),
      sinf = (\<lambda>x :: rat. if x = 0 then 0 else - (6151831 / 70368744177664) :: rat),
      atan2f = (\<lambda>(y :: rat) (x :: rat). - (6151831 / 140737488355328) :: rat)\<rparr>"
  have e: "f32 (of_int (- 6151831) * 2 powi (- 46)) = of_int (- 6151831) * 2 powi (- 46)"
    by (rule f32_exact) simp
  have r: "is_f32 (- (6151831 / 70368744177664))"
    using e by (simp add: is_f32_def)
  have p: "PI_F \<noteq> 0"
    by (simp add: PI_F_def)
  have c: "cosf lm PI_F = - 1"
    using p by (simp add: lm_def)
  have "active_position lm 12
           (estimator_sums (vadd_f32 lm) (0, 0) [0, 1, 2, 3, 4, 5, 6, 7, 8, 9, 10, 11] 12
              \<lparr>curTouched = 0,
               filteredData = (\<lambda>e. if e = 0 then 197 else if e = 6 then 199 else 200),
               baselineData = (\<lambda>e. 200)\<rparr>) = 12"
  proof (rule estimator_position_reaches_slot_count)
    show "cosf lm 0 = 1" and "sinf lm 0 = 0"
      by (simp_all add: lm_def)
    show "cosf lm PI_F = - 1"
      by (rule c)
    show "is_f32 (sinf lm PI_F)"
      using p r by (simp add: lm_def)
    show "- (1 / 4194304) < atan2f lm (sinf lm PI_F) 2" and "atan2f lm (sinf lm PI_F) 2 < 0"
      by (simp_all add: lm_def)
  qed
  with c r show ?thesis
    unfolding lm_def by blast
qed

section \<open>The step accumulator\<close>

subsection \<open>The slot count and its half\<close>

lemma is_f32_zero: "is_f32 0"
  by (simp add: is_f32_def f32_zero)

lemma is_f32_slots:
  assumes "n \<le> 12"
  shows "is_f32 (of_nat n)" and "is_f32 (- of_nat n)"
    and "is_f32 (of_nat n / 2)" and "is_f32 (- (of_nat n / 2))"
proof -
  from assms have b: "\<bar>int n\<bar> < 2 ^ 24" "\<bar>- int n\<bar> < 2 ^ 24"
    by simp_all
  show "is_f32 (of_nat n)"
    using f32_exact [OF b(1), of 0] by (simp add: is_f32_def)
  show "is_f32 (- of_nat n)"
    using f32_exact [OF b(2), of 0] by (simp add: is_f32_def)
  show "is_f32 (of_nat n / 2)"
    using f32_exact [OF b(1), of "- 1"] by (simp add: is_f32_def power_int_minus_divide)
  show "is_f32 (- (of_nat n / 2))"
    using f32_exact [OF b(2), of "- 1"] by (simp add: is_f32_def power_int_minus_divide)
qed

subsection \<open>The wrap of a difference\<close>

lemma wrapped_diff_wrap:
  assumes n: "unat (s_orderCount w) \<le> 12"
    and p: "0 \<le> p" "p \<le> of_nat (unat (s_orderCount w))"
    and q: "0 \<le> q" "q \<le> of_nat (unat (s_orderCount w))"
  shows "\<bar>wrapped_diff w q p\<bar> \<le> of_nat (unat (s_orderCount w)) / 2"
    and "\<exists>k \<in> {- 1, 0, 1}.
           \<bar>wrapped_diff w q p
              - (if s_invert w then - 1 else 1) * (p - q + of_int k * of_nat (unat (s_orderCount w)))\<bar>
           \<le> 1 / 1048576"
proof -
  define N :: rat where "N = of_nat (unat (s_orderCount w))"
  define d where "d = f32 (p - q)"
  define d1 where "d1 = (if d > N / 2 then f32 (d - N) else d)"
  define d2 where "d2 = (if d1 < - N / 2 then f32 (d1 + N) else d1)"
  have wd: "wrapped_diff w q p = (if s_invert w then - d2 else d2)"
    by (simp add: wrapped_diff_def Let_def d2_def d1_def d_def N_def)
  note fN = is_f32_slots [OF n, folded N_def]
  from n have "(of_nat (unat (s_orderCount w)) :: rat) \<le> of_nat 12"
    by (simp only: of_nat_le_iff)
  then have N12: "N \<le> 12"
    by (simp add: N_def)
  have N0: "0 \<le> N"
    unfolding N_def by (rule of_nat_0_le_iff)
  have pq: "p - q \<le> N" "- N \<le> p - q"
    using p q by (simp_all add: N_def)
  have d_hi: "d \<le> N"
    unfolding d_def using fN(1) pq(1) by (rule f32_le)
  have d_lo: "- N \<le> d"
    unfolding d_def using fN(2) pq(2) by (rule f32_ge)
  have e0: "\<bar>d - (p - q)\<bar> \<le> 1 / 2097152"
    unfolding d_def using pq N12 by (intro f32_error_16) simp
  have main: "\<bar>d2\<bar> \<le> N / 2 \<and> (\<exists>k \<in> {- 1, 0, 1}. \<bar>d2 - (p - q + of_int k * N)\<bar> \<le> 1 / 1048576)"
  proof (cases "d > N / 2")
    case True
    then have d1: "d1 = f32 (d - N)"
      by (simp add: d1_def)
    have "d - N \<le> 0"
      using d_hi by simp
    with is_f32_zero have hi: "d1 \<le> 0"
      unfolding d1 by (rule f32_le)
    have "- (N / 2) \<le> d - N"
      using True by simp
    with fN(4) have lo: "- (N / 2) \<le> d1"
      unfolding d1 by (rule f32_ge)
    from lo have d2: "d2 = d1"
      by (simp add: d2_def)
    have "\<bar>d - N\<bar> \<le> 16"
      using d_hi True N12 N0 by linarith
    then have "\<bar>d1 - (d - N)\<bar> \<le> 1 / 2097152"
      unfolding d1 by (rule f32_error_16)
    with e0 have "\<bar>d1 - (p - q - N)\<bar> \<le> 1 / 1048576"
      by linarith
    then have "\<bar>d2 - (p - q + of_int (- 1) * N)\<bar> \<le> 1 / 1048576"
      unfolding d2 by simp
    then have "\<exists>k \<in> {- 1, 0, 1}. \<bar>d2 - (p - q + of_int k * N)\<bar> \<le> 1 / 1048576"
      by blast
    moreover have "\<bar>d2\<bar> \<le> N / 2"
      using lo hi N0 unfolding d2 by simp
    ultimately show ?thesis
      by blast
  next
    case False
    then have d1: "d1 = d"
      by (simp add: d1_def)
    show ?thesis
    proof (cases "d < - N / 2")
      case True
      then have d2: "d2 = f32 (d + N)"
        by (simp add: d2_def d1)
      have "0 \<le> d + N"
        using d_lo by simp
      with is_f32_zero have lo: "0 \<le> d2"
        unfolding d2 by (rule f32_ge)
      have "d + N \<le> N / 2"
        using True by simp
      with fN(3) have hi: "d2 \<le> N / 2"
        unfolding d2 by (rule f32_le)
      have "\<bar>d + N\<bar> \<le> 16"
        using d_lo True N12 N0 by linarith
      then have "\<bar>d2 - (d + N)\<bar> \<le> 1 / 2097152"
        unfolding d2 by (rule f32_error_16)
      with e0 have "\<bar>d2 - (p - q + N)\<bar> \<le> 1 / 1048576"
        by linarith
      then have "\<bar>d2 - (p - q + of_int 1 * N)\<bar> \<le> 1 / 1048576"
        by simp
      then have "\<exists>k \<in> {- 1, 0, 1}. \<bar>d2 - (p - q + of_int k * N)\<bar> \<le> 1 / 1048576"
        by blast
      moreover have "\<bar>d2\<bar> \<le> N / 2"
        using lo hi by simp
      ultimately show ?thesis
      by blast
    next
      case False
      then have d2: "d2 = d"
        by (simp add: d2_def d1)
      from e0 have "\<bar>d - (p - q)\<bar> \<le> 1 / 1048576"
        by linarith
      then have "\<bar>d2 - (p - q + of_int 0 * N)\<bar> \<le> 1 / 1048576"
        unfolding d2 by simp
      then have "\<exists>k \<in> {- 1, 0, 1}. \<bar>d2 - (p - q + of_int k * N)\<bar> \<le> 1 / 1048576"
        by blast
      moreover have "\<bar>d2\<bar> \<le> N / 2"
        using False \<open>\<not> N / 2 < d\<close> unfolding d2 by simp
      ultimately show ?thesis
      by blast
    qed
  qed
  from main show "\<bar>wrapped_diff w q p\<bar> \<le> of_nat (unat (s_orderCount w)) / 2"
    unfolding wd N_def by simp
  from main obtain k where k: "k \<in> {- 1, 0, 1 :: int}" "\<bar>d2 - (p - q + of_int k * N)\<bar> \<le> 1 / 1048576"
    by blast
  have "\<bar>(if s_invert w then - d2 else d2) - (if s_invert w then - 1 else 1) * (p - q + of_int k * N)\<bar>
      = \<bar>d2 - (p - q + of_int k * N)\<bar>"
    by (simp add: abs_minus_commute algebra_simps)
  with k show "\<exists>k \<in> {- 1, 0, 1}.
           \<bar>wrapped_diff w q p
              - (if s_invert w then - 1 else 1) * (p - q + of_int k * of_nat (unat (s_orderCount w)))\<bar>
           \<le> 1 / 1048576"
    unfolding wd N_def by metis
qed

subsection \<open>The two loops\<close>

lemma emit_up_returns_aux:
  "is_f32 x \<Longrightarrow> x < 2 ^ 24 \<Longrightarrow> x < of_nat n + 1 / 2 \<Longrightarrow>
   \<exists>k. emit_up x a s = Some (x - of_nat k, a + of_nat k, s + int k)
     \<and> x - of_nat k < 1 / 2 \<and> (k = 0 \<or> - (1 / 2) \<le> x - of_nat k) \<and> is_f32 (x - of_nat k)"
proof (induction n arbitrary: x a s)
  case 0
  then have "\<not> 1 / 2 \<le> x"
    by simp
  then have "emit_up x a s = Some (x, a, s)"
    by (subst emit_up.simps) simp
  with 0 show ?case
    by (intro exI [of _ 0]) simp
next
  case (Suc n)
  show ?case
  proof (cases "1 / 2 \<le> x")
    case False
    then have "emit_up x a s = Some (x, a, s)"
      by (subst emit_up.simps) simp
    with False Suc.prems(1) show ?thesis
      by (intro exI [of _ 0]) simp
  next
    case True
    have ex: "f32 (x - 1) = x - 1"
      using Suc.prems(1) True Suc.prems(2) by (rule f32_minus_one)
    then have f: "is_f32 (x - 1)"
      by (simp add: is_f32_def)
    have b: "x - 1 < 2 ^ 24"
      using Suc.prems(2) by simp
    have c: "x - 1 < of_nat n + 1 / 2"
      using Suc.prems(3) by simp
    from Suc.IH [OF f b c, of "a + 1" "s + 1"] obtain k where
      k: "emit_up (x - 1) (a + 1) (s + 1) = Some (x - 1 - of_nat k, a + 1 + of_nat k, s + 1 + int k)"
        "x - 1 - of_nat k < 1 / 2" "k = 0 \<or> - (1 / 2) \<le> x - 1 - of_nat k"
        "is_f32 (x - 1 - of_nat k)"
      by blast
    have step: "emit_up x a s = emit_up (x - 1) (a + 1) (s + 1)"
      using True ex by (subst emit_up.simps) simp
    have eq: "x - of_nat (Suc k) = x - 1 - of_nat k"
      by simp
    have "emit_up x a s = Some (x - of_nat (Suc k), a + of_nat (Suc k), s + int (Suc k))"
      unfolding step k(1) eq by simp
    moreover have "x - of_nat (Suc k) < 1 / 2"
      unfolding eq by (rule k(2))
    moreover have "- (1 / 2) \<le> x - of_nat (Suc k)"
      unfolding eq using k(3) True by auto
    moreover have "is_f32 (x - of_nat (Suc k))"
      unfolding eq by (rule k(4))
    ultimately show ?thesis
      by blast
  qed
qed

lemma emit_up_returns:
  assumes "is_f32 x" and "x < 2 ^ 24"
  shows "\<exists>k. emit_up x a s = Some (x - of_nat k, a + of_nat k, s + int k)
     \<and> x - of_nat k < 1 / 2 \<and> (k = 0 \<or> - (1 / 2) \<le> x - of_nat k) \<and> is_f32 (x - of_nat k)"
proof -
  have "x \<le> of_int \<lceil>x\<rceil>"
    by (rule le_of_int_ceiling)
  moreover have "\<lceil>x\<rceil> \<le> int (nat \<lceil>x\<rceil>)"
    by simp
  then have "(of_int \<lceil>x\<rceil> :: rat) \<le> of_int (int (nat \<lceil>x\<rceil>))"
    by (simp only: of_int_le_iff)
  moreover have "(of_int (int (nat \<lceil>x\<rceil>)) :: rat) = of_nat (nat \<lceil>x\<rceil>)"
    by (rule of_int_of_nat_eq)
  ultimately have "x < of_nat (nat \<lceil>x\<rceil>) + 1 / 2"
    by linarith
  with assms show ?thesis
    by (rule emit_up_returns_aux)
qed

lemma emit_down_returns_aux:
  "is_f32 x \<Longrightarrow> - (2 ^ 24) < x \<Longrightarrow> - (of_nat n + 1 / 2) < x \<Longrightarrow>
   \<exists>k. emit_down x a s = Some (x + of_nat k, a - of_nat k, s - int k)
     \<and> - (1 / 2) < x + of_nat k \<and> (k = 0 \<or> x + of_nat k \<le> 1 / 2) \<and> is_f32 (x + of_nat k)"
proof (induction n arbitrary: x a s)
  case 0
  then have "\<not> x \<le> - (1 / 2)"
    by simp
  then have "emit_down x a s = Some (x, a, s)"
    by (subst emit_down.simps) simp
  with 0 show ?case
    by (intro exI [of _ 0]) simp
next
  case (Suc n)
  show ?case
  proof (cases "x \<le> - (1 / 2)")
    case False
    then have "emit_down x a s = Some (x, a, s)"
      by (subst emit_down.simps) simp
    with False Suc.prems(1) show ?thesis
      by (intro exI [of _ 0]) simp
  next
    case True
    have ex: "f32 (x + 1) = x + 1"
      using Suc.prems(1) True Suc.prems(2) by (rule f32_plus_one)
    then have f: "is_f32 (x + 1)"
      by (simp add: is_f32_def)
    have b: "- (2 ^ 24) < x + 1"
      using Suc.prems(2) by simp
    have c: "- (of_nat n + 1 / 2) < x + 1"
      using Suc.prems(3) by simp
    from Suc.IH [OF f b c, of "a - 1" "s - 1"] obtain k where
      k: "emit_down (x + 1) (a - 1) (s - 1) = Some (x + 1 + of_nat k, a - 1 - of_nat k, s - 1 - int k)"
        "- (1 / 2) < x + 1 + of_nat k" "k = 0 \<or> x + 1 + of_nat k \<le> 1 / 2"
        "is_f32 (x + 1 + of_nat k)"
      by blast
    have step: "emit_down x a s = emit_down (x + 1) (a - 1) (s - 1)"
      using True ex by (subst emit_down.simps) simp
    have eq: "x + of_nat (Suc k) = x + 1 + of_nat k"
      by simp
    have "emit_down x a s = Some (x + of_nat (Suc k), a - of_nat (Suc k), s - int (Suc k))"
      unfolding step k(1) eq by simp
    moreover have "- (1 / 2) < x + of_nat (Suc k)"
      unfolding eq by (rule k(2))
    moreover have "x + of_nat (Suc k) \<le> 1 / 2"
      unfolding eq using k(3) True by auto
    moreover have "is_f32 (x + of_nat (Suc k))"
      unfolding eq by (rule k(4))
    ultimately show ?thesis
      by blast
  qed
qed

lemma emit_down_returns:
  assumes "is_f32 x" and "- (2 ^ 24) < x"
  shows "\<exists>k. emit_down x a s = Some (x + of_nat k, a - of_nat k, s - int k)
     \<and> - (1 / 2) < x + of_nat k \<and> (k = 0 \<or> x + of_nat k \<le> 1 / 2) \<and> is_f32 (x + of_nat k)"
proof -
  have "- x \<le> of_int \<lceil>- x\<rceil>"
    by (rule le_of_int_ceiling)
  moreover have "\<lceil>- x\<rceil> \<le> int (nat \<lceil>- x\<rceil>)"
    by simp
  then have "(of_int \<lceil>- x\<rceil> :: rat) \<le> of_int (int (nat \<lceil>- x\<rceil>))"
    by (simp only: of_int_le_iff)
  moreover have "(of_int (int (nat \<lceil>- x\<rceil>)) :: rat) = of_nat (nat \<lceil>- x\<rceil>)"
    by (rule of_int_of_nat_eq)
  ultimately have "- (of_nat (nat \<lceil>- x\<rceil>) + 1 / 2) < x"
    by linarith
  with assms show ?thesis
    by (rule emit_down_returns_aux)
qed

subsection \<open>One iteration and a session\<close>

lemma wrapped_diff_cong:
  "s_orderCount w' = s_orderCount w \<Longrightarrow> s_invert w' = s_invert w
   \<Longrightarrow> wrapped_diff w' q p = wrapped_diff w q p"
  by (simp add: wrapped_diff_def)

lemma path_motion_cong:
  assumes "s_orderCount w' = s_orderCount w" and "s_invert w' = s_invert w"
  shows "path_motion w' q ps = path_motion w q ps"
proof (induction ps arbitrary: q)
  case Nil
  show ?case
    by simp
next
  case (Cons p ps)
  have "wrapped_diff w' q p = wrapped_diff w q p"
    using assms by (rule wrapped_diff_cong)
  with Cons show ?case
    by simp
qed

lemma step_accumulator_first:
  assumes "s_isActive w" and "0 \<le> p" and "lastPos w < 0"
  shows "step_accumulator p w = Some (w\<lparr>lastPos := p\<rparr>, 0)"
  using assms by (simp add: step_accumulator_def Let_def)

lemma step_accumulator_moving:
  assumes act: "s_isActive w" and n: "unat (s_orderCount w) \<le> 12"
    and q: "0 \<le> lastPos w" "lastPos w \<le> of_nat (unat (s_orderCount w))"
    and p: "0 \<le> p" "p \<le> of_nat (unat (s_orderCount w))"
    and fr: "is_f32 (s_fracMove w)" "\<bar>s_fracMove w\<bar> \<le> 1 / 2"
  shows "\<exists>fracMove k.
           step_accumulator p w
             = Some (w\<lparr>s_fracMove := fracMove, s_accumDelta := s_accumDelta w + word_of_int k,
                      lastPos := p\<rparr>, k)
         \<and> is_f32 fracMove \<and> - (1 / 2) < fracMove \<and> fracMove \<le> 1 / 2
         \<and> \<bar>of_int k - (s_fracMove w + wrapped_diff w (lastPos w) p - fracMove)\<bar> \<le> 1 / 4194304"
proof -
  define N :: rat where "N = of_nat (unat (s_orderCount w))"
  define wd where "wd = wrapped_diff w (lastPos w) p"
  define s0 where "s0 = f32 (s_fracMove w + wd)"
  from n have "(of_nat (unat (s_orderCount w)) :: rat) \<le> of_nat 12"
    by (simp only: of_nat_le_iff)
  then have N12: "N \<le> 12"
    by (simp add: N_def)
  have "\<bar>wd\<bar> \<le> N / 2"
    unfolding wd_def N_def using n p q by (rule wrapped_diff_wrap(1))
  with N12 fr(2) have sum8: "\<bar>s_fracMove w + wd\<bar> \<le> 8"
    by linarith
  then have e0: "\<bar>s0 - (s_fracMove w + wd)\<bar> \<le> 1 / 4194304"
    unfolding s0_def by (rule f32_error_8)
  have f0: "is_f32 s0"
    unfolding s0_def by (rule f32_idem)
  from e0 sum8 have "s0 < 16777216" and "- 16777216 < s0"
    by linarith+
  then have s0_hi: "s0 < 2 ^ 24" and s0_lo: "- (2 ^ 24) < s0"
    by simp_all
  from emit_up_returns [OF f0 s0_hi, of "s_accumDelta w" 0] obtain k1 where
    up: "emit_up s0 (s_accumDelta w) 0 = Some (s0 - of_nat k1, s_accumDelta w + of_nat k1, int k1)"
      and u1: "s0 - of_nat k1 < 1 / 2" and u2: "k1 = 0 \<or> - (1 / 2) \<le> s0 - of_nat k1"
      and u3: "is_f32 (s0 - of_nat k1)"
    by auto
  define s1 where "s1 = s0 - of_nat k1"
  have s1_lo: "- (2 ^ 24) < s1"
    using u2 s0_lo unfolding s1_def by auto
  from emit_down_returns [OF u3 [folded s1_def] s1_lo, of "s_accumDelta w + of_nat k1" "int k1"]
  obtain k2 where
    down: "emit_down s1 (s_accumDelta w + of_nat k1) (int k1)
        = Some (s1 + of_nat k2, s_accumDelta w + of_nat k1 - of_nat k2, int k1 - int k2)"
      and d1: "- (1 / 2) < s1 + of_nat k2" and d2: "k2 = 0 \<or> s1 + of_nat k2 \<le> 1 / 2"
      and d3: "is_f32 (s1 + of_nat k2)"
    by blast
  define s2 where "s2 = s1 + of_nat k2"
  define k where "k = int k1 - int k2"
  have s2_hi: "s2 \<le> 1 / 2"
    using d2 u1 unfolding s2_def s1_def by auto
  have acc: "s_accumDelta w + of_nat k1 - of_nat k2 = s_accumDelta w + word_of_int k"
    by (simp add: k_def)
  have kk: "int k1 - int k2 = k"
    by (simp add: k_def)
  have run: "step_accumulator p w
      = Some (w\<lparr>s_fracMove := s2, s_accumDelta := s_accumDelta w + word_of_int k, lastPos := p\<rparr>, k)"
    using act p(1) q(1)
    by (simp add: step_accumulator_def Let_def wd_def [symmetric] s0_def [symmetric] up
        s1_def [symmetric] down s2_def [symmetric] acc kk)
  have "(of_int k :: rat) = s0 - s2"
    by (simp add: k_def s2_def s1_def)
  with e0 have "\<bar>of_int k - (s_fracMove w + wd - s2)\<bar> \<le> 1 / 4194304"
    by linarith
  with run d3 d1 s2_hi show ?thesis
    unfolding s2_def [symmetric] wd_def by blast
qed

lemma feed_positions_moving:
  assumes "s_isActive w" and "unat (s_orderCount w) \<le> 12"
    and "0 \<le> lastPos w" and "lastPos w \<le> of_nat (unat (s_orderCount w))"
    and "is_f32 (s_fracMove w)" and "- (1 / 2) < s_fracMove w" and "s_fracMove w \<le> 1 / 2"
    and "\<forall>p \<in> set ps. 0 \<le> p \<and> p \<le> of_nat (unat (s_orderCount w))"
  shows "\<exists>w' e'.
           feed_positions ps w e = Some (w', e')
         \<and> - (1 / 2) < s_fracMove w' \<and> s_fracMove w' \<le> 1 / 2
         \<and> \<bar>of_int (e' - e) - (s_fracMove w + path_motion w (lastPos w) ps - s_fracMove w')\<bar>
             \<le> of_nat (length ps) / 4194304
         \<and> s_accumDelta w' = s_accumDelta w + word_of_int (e' - e)"
  using assms
proof (induction ps arbitrary: w e)
  case Nil
  then show ?case
    by simp
next
  case (Cons p ps)
  from Cons.prems(8) have p: "0 \<le> p" "p \<le> of_nat (unat (s_orderCount w))"
    and rest: "\<forall>p \<in> set ps. 0 \<le> p \<and> p \<le> of_nat (unat (s_orderCount w))"
    by simp_all
  from Cons.prems(6,7) have fr: "\<bar>s_fracMove w\<bar> \<le> 1 / 2"
    by simp
  from step_accumulator_moving [OF Cons.prems(1,2,3,4) p Cons.prems(5) fr]
  obtain fracMove k where
    step: "step_accumulator p w
        = Some (w\<lparr>s_fracMove := fracMove, s_accumDelta := s_accumDelta w + word_of_int k,
                 lastPos := p\<rparr>, k)"
      and f: "is_f32 fracMove" "- (1 / 2) < fracMove" "fracMove \<le> 1 / 2"
      and err: "\<bar>of_int k - (s_fracMove w + wrapped_diff w (lastPos w) p - fracMove)\<bar> \<le> 1 / 4194304"
    by blast
  define w1 where "w1 = w\<lparr>s_fracMove := fracMove, s_accumDelta := s_accumDelta w + word_of_int k,
      lastPos := p\<rparr>"
  have w1: "s_isActive w1" "unat (s_orderCount w1) \<le> 12" "0 \<le> lastPos w1"
      "lastPos w1 \<le> of_nat (unat (s_orderCount w1))" "is_f32 (s_fracMove w1)"
      "- (1 / 2) < s_fracMove w1" "s_fracMove w1 \<le> 1 / 2"
      "\<forall>p \<in> set ps. 0 \<le> p \<and> p \<le> of_nat (unat (s_orderCount w1))"
    using Cons.prems(1,2) p f rest by (simp_all add: w1_def)
  from Cons.IH [OF w1, of "e + k"] obtain w' e' where
    run: "feed_positions ps w1 (e + k) = Some (w', e')"
      and r: "- (1 / 2) < s_fracMove w'" "s_fracMove w' \<le> 1 / 2"
      and ih: "\<bar>of_int (e' - (e + k)) - (s_fracMove w1 + path_motion w1 (lastPos w1) ps - s_fracMove w')\<bar>
          \<le> of_nat (length ps) / 4194304"
      and a: "s_accumDelta w' = s_accumDelta w1 + word_of_int (e' - (e + k))"
    by blast
  have pm: "path_motion w1 p ps = path_motion w p ps"
    by (rule path_motion_cong) (simp_all add: w1_def)
  have l1: "lastPos w1 = p" and f1: "s_fracMove w1 = fracMove"
    and a1: "s_accumDelta w1 = s_accumDelta w + word_of_int k"
    by (simp_all add: w1_def)
  have run': "feed_positions (p # ps) w e = Some (w', e')"
    using step run by (simp add: w1_def)
  have split: "(of_int (e' - e) :: rat) = of_int (e' - (e + k)) + of_int k"
    by simp
  have len: "(of_nat (length (p # ps)) :: rat) / 4194304 = of_nat (length ps) / 4194304 + 1 / 4194304"
    by (simp add: add_divide_distrib)
  from ih err have "\<bar>of_int (e' - e) - (s_fracMove w + path_motion w (lastPos w) (p # ps) - s_fracMove w')\<bar>
      \<le> of_nat (length (p # ps)) / 4194304"
    unfolding split len l1 f1 pm path_motion.simps by linarith
  moreover have "s_accumDelta w' = s_accumDelta w + word_of_int (e' - e)"
    unfolding a a1 by simp
  ultimately show ?case
    using run' r by blast
qed

text \<open>
  C2 as stated does not hold of the code: the identity between the emitted steps, the
  sum of the differences and the carry is not exact, because the difference of two
  positions and the sum \<open>s_fracMove += diff\<close> are rounded. Two sessions on a ring of
  twelve, each starting active with \<open>s_fracMove = 0\<close> and no previous position.

  In the first the position goes from \<open>5086811 / 2 ^ 23\<close> to \<open>7140057 / 2 ^ 26\<close>. The
  difference is \<open>-1/2 + 1 / 2 ^ 26\<close> and rounds to \<open>-1/2\<close>, so the second loop emits
  \<open>-1\<close> and leaves \<open>s_fracMove = 1/2\<close>; the sum of the differences the specification
  describes minus the final \<open>s_fracMove\<close> is \<open>-1 + 1 / 2 ^ 26\<close>, not \<open>-1\<close>.

  In the second the positions are \<open>0\<close>, \<open>13421773 / 2 ^ 27\<close> and
  \<open>11744051 / 2 ^ 25\<close>. The differences the code computes are \<open>13421773 / 2 ^ 27\<close> and
  \<open>1/4\<close>, their sum rounds to \<open>11744051 / 2 ^ 25\<close>, which is what \<open>s_fracMove\<close> holds at
  the end; nothing is emitted, and the sum of the code's own differences minus the final
  \<open>s_fracMove\<close> is \<open>1 / 2 ^ 27\<close>, not \<open>0\<close>.
\<close>

theorem step_accumulator_rounding_counterexample:
  "feed_positions [5086811 / 8388608, 7140057 / 67108864]
     \<lparr>s_accumDelta = 0, s_orderCount = 12, s_invert = False, s_fracMove = 0, s_isActive = True,
      s_activeFrames = 2, s_quietFrames = 0, lastPos = - 1\<rparr> 0
   = Some (\<lparr>s_accumDelta = - 1, s_orderCount = 12, s_invert = False, s_fracMove = 1 / 2,
            s_isActive = True, s_activeFrames = 2, s_quietFrames = 0,
            lastPos = 7140057 / 67108864\<rparr>, - 1)
   \<and> spec_session_motion
       \<lparr>s_accumDelta = 0, s_orderCount = 12, s_invert = False, s_fracMove = 0, s_isActive = True,
        s_activeFrames = 2, s_quietFrames = 0, lastPos = - 1\<rparr>
       [5086811 / 8388608, 7140057 / 67108864] - 1 / 2 = - 1 + 1 / 67108864
   \<and> feed_positions [0, 13421773 / 134217728, 11744051 / 33554432]
       \<lparr>s_accumDelta = 0, s_orderCount = 12, s_invert = False, s_fracMove = 0, s_isActive = True,
        s_activeFrames = 2, s_quietFrames = 0, lastPos = - 1\<rparr> 0
     = Some (\<lparr>s_accumDelta = 0, s_orderCount = 12, s_invert = False,
              s_fracMove = 11744051 / 33554432, s_isActive = True, s_activeFrames = 2,
              s_quietFrames = 0, lastPos = 11744051 / 33554432\<rparr>, 0)
   \<and> session_motion
       \<lparr>s_accumDelta = 0, s_orderCount = 12, s_invert = False, s_fracMove = 0, s_isActive = True,
        s_activeFrames = 2, s_quietFrames = 0, lastPos = - 1\<rparr>
       [0, 13421773 / 134217728, 11744051 / 33554432] - 11744051 / 33554432 = 1 / 134217728"
proof -
  have t1: "f32 (- (33554431 / 67108864)) = - (1 / 2)"
    using f32_tie [of "- 2" "- (33554431 / 67108864)" "- 16777216"] by simp
  have t2: "f32 (33554431 / 134217728) = 1 / 4"
    using f32_tie [of "- 3" "33554431 / 134217728" 16777215] by simp
  have x1: "f32 (13421773 / 134217728) = 13421773 / 134217728"
    using f32_exact [of 13421773 "- 27"] by simp
  have x2: "f32 (46976205 / 134217728) = 11744051 / 33554432"
    using f32_near [of "- 2" "46976205 / 134217728" 11744051] by simp
  have a: "feed_positions [5086811 / 8388608, 7140057 / 67108864]
     \<lparr>s_accumDelta = 0, s_orderCount = 12, s_invert = False, s_fracMove = 0, s_isActive = True,
      s_activeFrames = 2, s_quietFrames = 0, lastPos = - 1\<rparr> 0
   = Some (\<lparr>s_accumDelta = - 1, s_orderCount = 12, s_invert = False, s_fracMove = 1 / 2,
            s_isActive = True, s_activeFrames = 2, s_quietFrames = 0,
            lastPos = 7140057 / 67108864\<rparr>, - 1)"
    by (simp add: step_accumulator_def wrapped_diff_def Let_def t1 f32_half f32_neg_half
        emit_up.simps [of "- (1 / 2)"] emit_down.simps [of "- (1 / 2)"] emit_down.simps [of "1 / 2"])
  have b: "spec_session_motion
       \<lparr>s_accumDelta = 0, s_orderCount = 12, s_invert = False, s_fracMove = 0, s_isActive = True,
        s_activeFrames = 2, s_quietFrames = 0, lastPos = - 1\<rparr>
       [5086811 / 8388608, 7140057 / 67108864] - 1 / 2 = - 1 + 1 / 67108864"
    by (simp add: spec_session_motion_def spec_wrapped_diff_def Let_def)
  have c: "feed_positions [0, 13421773 / 134217728, 11744051 / 33554432]
       \<lparr>s_accumDelta = 0, s_orderCount = 12, s_invert = False, s_fracMove = 0, s_isActive = True,
        s_activeFrames = 2, s_quietFrames = 0, lastPos = - 1\<rparr> 0
     = Some (\<lparr>s_accumDelta = 0, s_orderCount = 12, s_invert = False,
              s_fracMove = 11744051 / 33554432, s_isActive = True, s_activeFrames = 2,
              s_quietFrames = 0, lastPos = 11744051 / 33554432\<rparr>, 0)"
    by (simp add: step_accumulator_def wrapped_diff_def Let_def t2 x1 x2
        emit_up.simps [of "13421773 / 134217728"] emit_down.simps [of "13421773 / 134217728"]
        emit_up.simps [of "11744051 / 33554432"] emit_down.simps [of "11744051 / 33554432"])
  have d: "session_motion
       \<lparr>s_accumDelta = 0, s_orderCount = 12, s_invert = False, s_fracMove = 0, s_isActive = True,
        s_activeFrames = 2, s_quietFrames = 0, lastPos = - 1\<rparr>
       [0, 13421773 / 134217728, 11744051 / 33554432] - 11744051 / 33554432 = 1 / 134217728"
    by (simp add: session_motion_def wrapped_diff_def Let_def t2 x1)
  from a b c d show ?thesis
    by (intro conjI)
qed

text \<open>
  C2, amended. A session starts with the wheel active, \<open>s_fracMove = 0\<close> and no previous
  position, on a ring of at most twelve slots, and feeds any sequence of positions
  between \<open>0\<close> and \<open>s_orderCount\<close>. Then every iteration returns (both loops end); the
  final \<open>s_fracMove\<close> is above \<open>-1/2\<close> and at most \<open>1/2\<close>; the total of the emitted
  \<open>stepDelta\<close>s differs from the sum of the differences the code computes minus the
  final \<open>s_fracMove\<close> by at most \<open>1 / 2 ^ 22\<close> for each position after the first, the
  rounding of \<open>s_fracMove += diff\<close>, and therefore from the sum itself by at most \<open>1/2\<close>
  more; and \<open>s_accumDelta\<close> has grown by the emitted total, in 32-bit arithmetic. Each
  difference the code computes between two of the positions is at most half the ring in
  absolute value and is, up to \<open>1 / 2 ^ 20\<close>, the plain difference of the two positions
  moved by a whole number of turns (none, one up or one down), negated under
  \<open>s_invert\<close>.
\<close>

theorem step_accumulator_tracks_motion:
  assumes "s_isActive w" and "lastPos w < 0" and "s_fracMove w = 0"
    and "unat (s_orderCount w) \<le> 12"
    and "\<forall>p \<in> set ps. 0 \<le> p \<and> p \<le> of_nat (unat (s_orderCount w))"
  shows "(\<exists>w' emitted.
            feed_positions ps w 0 = Some (w', emitted)
          \<and> - (1 / 2) < s_fracMove w' \<and> s_fracMove w' \<le> 1 / 2
          \<and> \<bar>of_int emitted - (session_motion w ps - s_fracMove w')\<bar>
              \<le> of_nat (length ps - 1) / 4194304
          \<and> \<bar>of_int emitted - session_motion w ps\<bar> \<le> 1 / 2 + of_nat (length ps - 1) / 4194304
          \<and> s_accumDelta w' = s_accumDelta w + word_of_int emitted)
       \<and> (\<forall>q \<in> set ps. \<forall>p \<in> set ps.
            \<bar>wrapped_diff w q p\<bar> \<le> of_nat (unat (s_orderCount w)) / 2
          \<and> (\<exists>k \<in> {- 1, 0, 1}.
                \<bar>wrapped_diff w q p
                   - (if s_invert w then - 1 else 1)
                     * (p - q + of_int k * of_nat (unat (s_orderCount w)))\<bar>
                \<le> 1 / 1048576))"
proof -
  have wrap: "\<forall>q \<in> set ps. \<forall>p \<in> set ps.
            \<bar>wrapped_diff w q p\<bar> \<le> of_nat (unat (s_orderCount w)) / 2
          \<and> (\<exists>k \<in> {- 1, 0, 1}.
                \<bar>wrapped_diff w q p
                   - (if s_invert w then - 1 else 1)
                     * (p - q + of_int k * of_nat (unat (s_orderCount w)))\<bar>
                \<le> 1 / 1048576)"
  proof (intro ballI)
    fix q p
    assume "q \<in> set ps" and "p \<in> set ps"
    with assms(5) have q: "0 \<le> q" "q \<le> of_nat (unat (s_orderCount w))"
      and p: "0 \<le> p" "p \<le> of_nat (unat (s_orderCount w))"
      by simp_all
    from wrapped_diff_wrap [OF assms(4) p q]
    show "\<bar>wrapped_diff w q p\<bar> \<le> of_nat (unat (s_orderCount w)) / 2
          \<and> (\<exists>k \<in> {- 1, 0, 1}.
                \<bar>wrapped_diff w q p
                   - (if s_invert w then - 1 else 1)
                     * (p - q + of_int k * of_nat (unat (s_orderCount w)))\<bar>
                \<le> 1 / 1048576)"
      by (rule conjI)
  qed
  have run: "\<exists>w' emitted.
            feed_positions ps w 0 = Some (w', emitted)
          \<and> - (1 / 2) < s_fracMove w' \<and> s_fracMove w' \<le> 1 / 2
          \<and> \<bar>of_int emitted - (session_motion w ps - s_fracMove w')\<bar>
              \<le> of_nat (length ps - 1) / 4194304
          \<and> \<bar>of_int emitted - session_motion w ps\<bar> \<le> 1 / 2 + of_nat (length ps - 1) / 4194304
          \<and> s_accumDelta w' = s_accumDelta w + word_of_int emitted"
  proof (cases ps)
    case Nil
    with assms(3) show ?thesis
      by (simp add: session_motion_def)
  next
    case (Cons p0 ps')
    with assms(5) have p0: "0 \<le> p0" "p0 \<le> of_nat (unat (s_orderCount w))"
      and rest: "\<forall>p \<in> set ps'. 0 \<le> p \<and> p \<le> of_nat (unat (s_orderCount w))"
      by simp_all
    define w1 where "w1 = w\<lparr>lastPos := p0\<rparr>"
    have first: "step_accumulator p0 w = Some (w1, 0)"
      unfolding w1_def using assms(1) p0(1) assms(2) by (rule step_accumulator_first)
    have w1: "s_isActive w1" "unat (s_orderCount w1) \<le> 12" "0 \<le> lastPos w1"
        "lastPos w1 \<le> of_nat (unat (s_orderCount w1))" "is_f32 (s_fracMove w1)"
        "- (1 / 2) < s_fracMove w1" "s_fracMove w1 \<le> 1 / 2"
        "\<forall>p \<in> set ps'. 0 \<le> p \<and> p \<le> of_nat (unat (s_orderCount w1))"
      using assms(1,3,4) p0 rest by (simp_all add: w1_def is_f32_zero)
    from feed_positions_moving [OF w1, of 0] obtain w' emitted where
      r: "feed_positions ps' w1 0 = Some (w', emitted)"
        and fr: "- (1 / 2) < s_fracMove w'" "s_fracMove w' \<le> 1 / 2"
        and err: "\<bar>of_int (emitted - 0) - (s_fracMove w1 + path_motion w1 (lastPos w1) ps' - s_fracMove w')\<bar>
            \<le> of_nat (length ps') / 4194304"
        and a: "s_accumDelta w' = s_accumDelta w1 + word_of_int (emitted - 0)"
      by blast
    have pm: "path_motion w1 p0 ps' = path_motion w p0 ps'"
      by (rule path_motion_cong) (simp_all add: w1_def)
    have sm: "session_motion w ps = path_motion w p0 ps'"
      by (simp add: session_motion_def Cons)
    have l1: "lastPos w1 = p0" and f1: "s_fracMove w1 = 0" and a1: "s_accumDelta w1 = s_accumDelta w"
      using assms(3) by (simp_all add: w1_def)
    have len: "length ps - 1 = length ps'"
      by (simp add: Cons)
    have run': "feed_positions ps w 0 = Some (w', emitted)"
      using first r by (simp add: Cons)
    from err have e1: "\<bar>of_int emitted - (session_motion w ps - s_fracMove w')\<bar>
        \<le> of_nat (length ps - 1) / 4194304"
      unfolding l1 f1 pm sm len by simp
    with fr have e2: "\<bar>of_int emitted - session_motion w ps\<bar>
        \<le> 1 / 2 + of_nat (length ps - 1) / 4194304"
      by linarith
    from a have a': "s_accumDelta w' = s_accumDelta w + word_of_int emitted"
      unfolding a1 by simp
    from run' fr e1 e2 a' show ?thesis
      by blast
  qed
  from run wrap show ?thesis
    by (rule conjI)
qed

text \<open>
  The theorem on the positions \<open>11\<close>, \<open>1/2\<close>, \<open>2\<close> of a ring of twelve with \<open>s_invert\<close>
  set: the first difference, \<open>-21/2\<close>, wraps to \<open>3/2\<close> and is negated to \<open>-3/2\<close>; the
  second, \<open>3/2\<close>, is negated as well; three steps down are emitted and nothing is
  carried.
\<close>

theorem step_accumulator_tracks_motion_witness:
  "feed_positions [11, 1 / 2, 2]
     \<lparr>s_accumDelta = 0, s_orderCount = 12, s_invert = True, s_fracMove = 0, s_isActive = True,
      s_activeFrames = 2, s_quietFrames = 0, lastPos = - 1\<rparr> 0
   = Some (\<lparr>s_accumDelta = - 3, s_orderCount = 12, s_invert = True, s_fracMove = 0,
            s_isActive = True, s_activeFrames = 2, s_quietFrames = 0, lastPos = 2\<rparr>, - 3)
   \<and> session_motion
       \<lparr>s_accumDelta = 0, s_orderCount = 12, s_invert = True, s_fracMove = 0, s_isActive = True,
        s_activeFrames = 2, s_quietFrames = 0, lastPos = - 1\<rparr> [11, 1 / 2, 2] = - 3
   \<and> wrapped_diff
       \<lparr>s_accumDelta = 0, s_orderCount = 12, s_invert = True, s_fracMove = 0, s_isActive = True,
        s_activeFrames = 2, s_quietFrames = 0, lastPos = - 1\<rparr> 11 (1 / 2) = - (3 / 2)
   \<and> \<bar>wrapped_diff
        \<lparr>s_accumDelta = 0, s_orderCount = 12, s_invert = True, s_fracMove = 0, s_isActive = True,
         s_activeFrames = 2, s_quietFrames = 0, lastPos = - 1\<rparr> 11 (1 / 2)\<bar> \<le> 6
   \<and> \<bar>of_int (- 3)
        - session_motion
            \<lparr>s_accumDelta = 0, s_orderCount = 12, s_invert = True, s_fracMove = 0, s_isActive = True,
             s_activeFrames = 2, s_quietFrames = 0, lastPos = - 1\<rparr> [11, 1 / 2, 2]\<bar>
      \<le> 1 / 2 + 2 / (4194304 :: rat)"
proof -
  let ?w = "\<lparr>s_accumDelta = 0, s_orderCount = 12, s_invert = True, s_fracMove = 0, s_isActive = True,
      s_activeFrames = 2, s_quietFrames = 0, lastPos = - 1\<rparr>"
  let ?ps = "[11, 1 / 2, 2] :: rat list"
  have h: "s_isActive ?w" "lastPos ?w < 0" "s_fracMove ?w = 0" "unat (s_orderCount ?w) \<le> 12"
      "\<forall>p \<in> set ?ps. 0 \<le> p \<and> p \<le> of_nat (unat (s_orderCount ?w))"
    by simp_all
  have v1: "f32 (- (21 / 2)) = - (21 / 2)"
    using f32_exact [of "- 21" "- 1"] by simp
  have v2: "f32 (3 / 2) = 3 / 2"
    using f32_exact [of 3 "- 1"] by simp
  have v3: "f32 (- (3 / 2)) = - (3 / 2)"
    using f32_exact [of "- 3" "- 1"] by simp
  have run: "feed_positions ?ps ?w 0
     = Some (\<lparr>s_accumDelta = - 3, s_orderCount = 12, s_invert = True, s_fracMove = 0,
            s_isActive = True, s_activeFrames = 2, s_quietFrames = 0, lastPos = 2\<rparr>, - 3)"
    by (simp add: step_accumulator_def wrapped_diff_def Let_def v1 v2 v3
        f32_zero f32_half f32_neg_half f32_neg_one
        emit_up.simps [of "- (3 / 2)"] emit_down.simps [of "- (3 / 2)"]
        emit_down.simps [of "- (1 / 2)"] emit_down.simps [of "1 / 2"]
        emit_up.simps [of "- 1"] emit_down.simps [of "- 1"] emit_down.simps [of 0])
  have motion: "session_motion ?w ?ps = - 3"
    by (simp add: session_motion_def wrapped_diff_def Let_def v1 v2)
  have wrap: "wrapped_diff ?w 11 (1 / 2) = - (3 / 2)"
    by (simp add: wrapped_diff_def Let_def v1 v2)
  note main = step_accumulator_tracks_motion [OF h]
  from main have "\<bar>wrapped_diff ?w 11 (1 / 2)\<bar> \<le> of_nat (unat (s_orderCount ?w)) / 2"
    by simp
  then have bound: "\<bar>wrapped_diff ?w 11 (1 / 2)\<bar> \<le> 6"
    by simp
  from main run have "\<bar>of_int (- 3) - session_motion ?w ?ps\<bar> \<le> 1 / 2 + of_nat (length ?ps - 1) / 4194304"
    by simp
  then have total: "\<bar>of_int (- 3) - session_motion ?w ?ps\<bar> \<le> 1 / 2 + 2 / (4194304 :: rat)"
    by simp
  from run motion wrap bound total show ?thesis
    by (intro conjI)
qed

end
